theory Spec2Isabelle
  imports Complex_Main "HOL-Library.Log_Nat"
begin

section \<open>Transfinite interpolation on a deformed quad mesh\<close>

text \<open>
  The notebook \<^verbatim>\<open>2_Quad_mesh_TFI_intro.ipynb\<close> computes, in one code cell, the
  physical coordinates of a logical \<open>NX \<times> NZ\<close> grid by the Gordon-Hall blending formula.
  The cell reads the globals \<open>NX\<close>, \<open>NZ\<close> and the four boundary curves \<open>Xb\<close>, \<open>Xt\<close>,
  \<open>Xl\<close>, \<open>Xr\<close>, and assigns the globals \<open>xi\<close>, \<open>eta\<close>, \<open>xi1\<close>, \<open>eta1\<close>, \<open>X\<close>, \<open>Z\<close>.

  The numbers of the cell are IEEE binary64 floats: every sum, difference, product and
  quotient is the exact result rounded to the nearest float, ties to even, with overflow
  to infinity. An exception is a value \<open>Inl (e, w)\<close>: the error and the globals as the
  exception leaves them. The four curves are not defined in the notebook (the cell that
  should define them holds only comments), so they are parameters: a curve maps a float
  to a pair of floats, or raises.
\<close>

subsection \<open>Binary64 arithmetic\<close>

text \<open>
  A float is a rational number, an infinity or a NaN. The two zeros are one value, as
  they are for \<open>==\<close>; the cell never divides by a computed zero, so the sign of a zero
  cannot reach a stored value.
\<close>

datatype f64 = Fin rat | PInf | NInf | NaN

text \<open>\<open>pow2 k\<close> is \<open>2\<^sup>k\<close>, also for negative \<open>k\<close>.\<close>

definition pow2 :: "int \<Rightarrow> rat" where
  "pow2 k = 2 powi k"

text \<open>The binary exponent of a non-zero rational: \<open>2\<^sup>e \<le> |a| < 2\<^sup>e\<^sup>+\<^sup>1\<close>.\<close>

definition expo :: "rat \<Rightarrow> int" where
  "expo a = (if 1 \<le> \<bar>a\<bar> then bitlen \<lfloor>\<bar>a\<bar>\<rfloor> - 1 else - bitlen (\<lceil>1 / \<bar>a\<bar>\<rceil> - 1))"

text \<open>The spacing of the floats around \<open>a\<close>: 53 significant bits, and \<open>2\<^sup>-\<^sup>1\<^sup>0\<^sup>7\<^sup>4\<close> in the
  subnormal range.\<close>

definition quantum :: "rat \<Rightarrow> rat" where
  "quantum a = pow2 (max (expo a) (- 1022) - 52)"

text \<open>Rounding a rational to the nearest integer, ties to the even one.\<close>

definition rne :: "rat \<Rightarrow> int" where
  "rne m = (let f = \<lfloor>m\<rfloor>; d = m - of_int f in
             if d < 1 / 2 then f else if 1 / 2 < d then f + 1
             else if even f then f else f + 1)"

text \<open>Rounding an exact result to binary64: the nearest multiple of the spacing, and an
  infinity when that reaches \<open>2\<^sup>1\<^sup>0\<^sup>2\<^sup>4\<close>.\<close>

definition round64 :: "rat \<Rightarrow> f64" where
  "round64 a =
     (if a = 0 then Fin 0
      else let q = quantum a; v = of_int (rne (a / q)) * q in
           if pow2 1024 \<le> v then PInf else if v \<le> - pow2 1024 then NInf else Fin v)"

text \<open>The operations \<open>+\<close>, unary \<open>-\<close>, \<open>-\<close>, \<open>*\<close> and \<open>/\<close> on floats, and the conversion of a
  Python integer.\<close>

fun fadd :: "f64 \<Rightarrow> f64 \<Rightarrow> f64" where
  "fadd (Fin a) (Fin b) = round64 (a + b)"
| "fadd NaN y = NaN"
| "fadd x NaN = NaN"
| "fadd PInf NInf = NaN"
| "fadd NInf PInf = NaN"
| "fadd PInf y = PInf"
| "fadd NInf y = NInf"
| "fadd (Fin a) y = y"

fun fneg :: "f64 \<Rightarrow> f64" where
  "fneg (Fin a) = Fin (- a)"
| "fneg PInf = NInf"
| "fneg NInf = PInf"
| "fneg NaN = NaN"

fun fsub :: "f64 \<Rightarrow> f64 \<Rightarrow> f64" where
  "fsub (Fin a) (Fin b) = round64 (a - b)"
| "fsub x y = fadd x (fneg y)"

fun fmul :: "f64 \<Rightarrow> f64 \<Rightarrow> f64" where
  "fmul (Fin a) (Fin b) = round64 (a * b)"
| "fmul NaN y = NaN"
| "fmul x NaN = NaN"
| "fmul (Fin a) PInf = (if a = 0 then NaN else if 0 < a then PInf else NInf)"
| "fmul (Fin a) NInf = (if a = 0 then NaN else if 0 < a then NInf else PInf)"
| "fmul PInf (Fin b) = (if b = 0 then NaN else if 0 < b then PInf else NInf)"
| "fmul NInf (Fin b) = (if b = 0 then NaN else if 0 < b then NInf else PInf)"
| "fmul PInf PInf = PInf"
| "fmul NInf NInf = PInf"
| "fmul PInf NInf = NInf"
| "fmul NInf PInf = NInf"

fun fdiv :: "f64 \<Rightarrow> f64 \<Rightarrow> f64" where
  "fdiv (Fin a) (Fin b) =
     (if b = 0 then (if a = 0 then NaN else if 0 < a then PInf else NInf)
      else round64 (a / b))"
| "fdiv NaN y = NaN"
| "fdiv x NaN = NaN"
| "fdiv (Fin a) y = Fin 0"
| "fdiv PInf (Fin b) = (if 0 \<le> b then PInf else NInf)"
| "fdiv NInf (Fin b) = (if 0 \<le> b then NInf else PInf)"
| "fdiv x y = NaN"

definition f64_of_int :: "int \<Rightarrow> f64" where
  "f64_of_int k = round64 (of_int k)"

subsection \<open>Data\<close>

datatype error = ValueError | IndexError | CurveError

type_synonym point = "f64 \<times> f64"
type_synonym curve = "f64 \<Rightarrow> error + point"
type_synonym array2 = "f64 list list"

record workspace =
  NX :: int
  NZ :: int
  Xb :: curve
  Xt :: curve
  Xl :: curve
  Xr :: curve
  xi :: "f64 list"
  eta :: "f64 list"
  xi1 :: array2
  eta1 :: array2
  X :: array2
  Z :: array2

type_synonym outcome = "error \<times> workspace + workspace"

text \<open>A statement that evaluates \<open>r\<close> with the globals \<open>w\<close>: an exception of \<open>r\<close> leaves the
  cell with the globals as they are, a value goes on to the rest \<open>f\<close>.\<close>

definition seq :: "workspace \<Rightarrow> error + 'a \<Rightarrow> ('a \<Rightarrow> outcome) \<Rightarrow> outcome" where
  "seq w r f = (case r of Inl e \<Rightarrow> Inl (e, w) | Inr v \<Rightarrow> f v)"

definition total_curve :: "(f64 \<Rightarrow> point) \<Rightarrow> curve" where
  "total_curve f = (\<lambda>t. Inr (f t))"

subsection \<open>The numpy primitives the cell calls\<close>

text \<open>
  \<open>np.linspace(start, stop, num)\<close> with the default \<open>endpoint=True\<close>: a negative \<open>num\<close>
  raises; the samples are \<open>k * step + start\<close> for \<open>k = 0, \<dots>, num - 1\<close> with
  \<open>step = (stop - start) / (num - 1)\<close>, every operation rounded, and the last sample is
  overwritten by \<open>stop\<close>; a zero step divides first and multiplies after; with fewer than
  two samples there is no step and no division.
\<close>

definition linspace :: "f64 \<Rightarrow> f64 \<Rightarrow> int \<Rightarrow> error + f64 list" where
  "linspace start stop num =
     (if num < 0 then Inl ValueError
      else
        let n = nat num;
            dv = f64_of_int (num - 1);
            start = fmul start (Fin 1);
            stop = fmul stop (Fin 1);
            y = map (\<lambda>k. f64_of_int (int k)) [0..<n];
            delta = fsub stop start;
            y = (if 1 < n then
                   (let step = fdiv delta dv in
                    if step = Fin 0 then map (\<lambda>v. fmul (fdiv v dv) delta) y
                    else map (\<lambda>v. fmul v step) y)
                 else map (\<lambda>v. fmul v delta) y);
            y = map (\<lambda>v. fadd v start) y
        in Inr (if 1 < n then y[n - 1 := stop] else y))"

text \<open>\<open>np.meshgrid(xi, eta)\<close> with the default \<open>indexing='xy'\<close>: two arrays of shape
  \<open>(len(eta), len(xi))\<close>.\<close>

definition meshgrid :: "f64 list \<Rightarrow> f64 list \<Rightarrow> array2 \<times> array2" where
  "meshgrid xs ys = (map (\<lambda>y. xs) ys, map (\<lambda>y. map (\<lambda>x. y) xs) ys)"

text \<open>\<open>np.zeros((n, m))\<close>: a negative dimension raises.\<close>

definition zeros :: "int \<Rightarrow> int \<Rightarrow> error + array2" where
  "zeros n m =
     (if n < 0 \<or> m < 0 then Inl ValueError
      else Inr (replicate (nat n) (replicate (nat m) (Fin 0))))"

text \<open>Reading \<open>a[i]\<close> and writing \<open>A[i,j] = v\<close> with indices taken from a \<open>range\<close>
  (never negative): out of range raises.\<close>

definition getitem :: "f64 list \<Rightarrow> nat \<Rightarrow> error + f64" where
  "getitem a i = (if i < length a then Inr (a ! i) else Inl IndexError)"

definition setitem2 :: "array2 \<Rightarrow> nat \<Rightarrow> nat \<Rightarrow> f64 \<Rightarrow> error + array2" where
  "setitem2 A i j v =
     (if i < length A \<and> j < length (A ! i) then Inr (A[i := (A ! i)[j := v]])
      else Inl IndexError)"

subsection \<open>The interpolation cell\<close>

text \<open>The body of the inner loop, for the node \<open>(i, j)\<close> with \<open>Xi = xi[i]\<close> already
  read by the outer loop: \<open>Eta = eta[j]\<close>, the eight curve evaluations in the order of
  the source, then the two assignments. Python evaluates \<open>a + b + c + d - (\<dots>)\<close> and
  \<open>p * q * r\<close> from the left, and so do the two formulas here.\<close>

definition tfi_body :: "f64 \<Rightarrow> nat \<Rightarrow> nat \<Rightarrow> workspace \<Rightarrow> outcome" where
  "tfi_body Xi i j w =
     seq w (getitem (eta w) j) (\<lambda>Eta.
     seq w (Xb w Xi) (\<lambda>xb.
     seq w (Xb w (Fin 0)) (\<lambda>xb0.
     seq w (Xb w (Fin 1)) (\<lambda>xb1.
     seq w (Xt w Xi) (\<lambda>xt.
     seq w (Xt w (Fin 0)) (\<lambda>xt0.
     seq w (Xt w (Fin 1)) (\<lambda>xt1.
     seq w (Xl w Eta) (\<lambda>xl.
     seq w (Xr w Eta) (\<lambda>xr.
     seq w (setitem2 (X w) i j
            (fsub
              (fadd (fadd (fadd (fmul (fsub (Fin 1) Eta) (fst xb)) (fmul Eta (fst xt)))
                          (fmul (fsub (Fin 1) Xi) (fst xl)))
                    (fmul Xi (fst xr)))
              (fadd (fadd (fadd (fmul (fmul Xi Eta) (fst xt1))
                                (fmul (fmul Xi (fsub (Fin 1) Eta)) (fst xb1)))
                          (fmul (fmul Eta (fsub (Fin 1) Xi)) (fst xt0)))
                    (fmul (fmul (fsub (Fin 1) Xi) (fsub (Fin 1) Eta)) (fst xb0))))) (\<lambda>X'.
     seq (w\<lparr>X := X'\<rparr>) (setitem2 (Z w) i j
            (fsub
              (fadd (fadd (fadd (fmul (fsub (Fin 1) Eta) (snd xb)) (fmul Eta (snd xt)))
                          (fmul (fsub (Fin 1) Xi) (snd xl)))
                    (fmul Xi (snd xr)))
              (fadd (fadd (fadd (fmul (fmul Xi Eta) (snd xt1))
                                (fmul (fmul Xi (fsub (Fin 1) Eta)) (snd xb1)))
                          (fmul (fmul Eta (fsub (Fin 1) Xi)) (snd xt0)))
                    (fmul (fmul (fsub (Fin 1) Xi) (fsub (Fin 1) Eta)) (snd xb0))))) (\<lambda>Z'.
     Inr (w\<lparr>X := X', Z := Z'\<rparr>))))))))))))"

text \<open>\<open>for j in range(NZ): ...\<close>, the list being the remaining values of \<open>j\<close>.\<close>

fun inner_loop :: "f64 \<Rightarrow> nat \<Rightarrow> nat list \<Rightarrow> workspace \<Rightarrow> outcome" where
  "inner_loop Xi i [] w = Inr w"
| "inner_loop Xi i (j # js) w =
     (case tfi_body Xi i j w of Inl ew \<Rightarrow> Inl ew | Inr w' \<Rightarrow> inner_loop Xi i js w')"

text \<open>\<open>for i in range(NX): Xi = xi[i]; for j in range(NZ): ...\<close>, the list being the
  remaining values of \<open>i\<close>.\<close>

fun outer_loop :: "nat list \<Rightarrow> workspace \<Rightarrow> outcome" where
  "outer_loop [] w = Inr w"
| "outer_loop (i # is) w =
     seq w (getitem (xi w) i) (\<lambda>Xi.
       case inner_loop Xi i [0..<nat (NZ w)] w of Inl ew \<Rightarrow> Inl ew
       | Inr w' \<Rightarrow> outer_loop is w')"

text \<open>The statements of the cell before the loops, each assigning its global: sample the
  two axes, build the plotting grids, allocate \<open>X\<close> and \<open>Z\<close>.\<close>

definition tfi_setup :: "workspace \<Rightarrow> outcome" where
  "tfi_setup w =
     seq w (linspace (Fin 0) (Fin 1) (NX w)) (\<lambda>xs.
     seq (w\<lparr>xi := xs\<rparr>) (linspace (Fin 0) (Fin 1) (NZ w)) (\<lambda>es.
     seq (w\<lparr>xi := xs, eta := es, xi1 := fst (meshgrid xs es), eta1 := snd (meshgrid xs es)\<rparr>)
         (zeros (NX w) (NZ w)) (\<lambda>X0.
     seq (w\<lparr>xi := xs, eta := es, xi1 := fst (meshgrid xs es), eta1 := snd (meshgrid xs es),
            X := X0\<rparr>)
         (zeros (NX w) (NZ w)) (\<lambda>Z0.
     Inr (w\<lparr>xi := xs, eta := es, xi1 := fst (meshgrid xs es), eta1 := snd (meshgrid xs es),
             X := X0, Z := Z0\<rparr>)))))"

text \<open>The whole cell: the setup, then the loops over \<open>range(NX)\<close> and \<open>range(NZ)\<close>.\<close>

definition tfi_cell :: "workspace \<Rightarrow> outcome" where
  "tfi_cell w =
     (case tfi_setup w of Inl ew \<Rightarrow> Inl ew
      | Inr w0 \<Rightarrow> outer_loop [0..<nat (NX w0)] w0)"

text \<open>The cell as the function of the specification: the six inputs go into a fresh
  workspace, the cell runs, and the pair \<open>(X, Z)\<close> is returned; an exception of the cell
  is the result of the function.\<close>

definition fresh :: "curve \<Rightarrow> curve \<Rightarrow> curve \<Rightarrow> curve \<Rightarrow> int \<Rightarrow> int \<Rightarrow> workspace" where
  "fresh bottomc topc leftc rightc nx nz =
     \<lparr>NX = nx, NZ = nz, Xb = bottomc, Xt = topc, Xl = leftc, Xr = rightc,
      xi = [], eta = [], xi1 = [], eta1 = [], X = [], Z = []\<rparr>"

definition mesh_of :: "outcome \<Rightarrow> error + array2 \<times> array2" where
  "mesh_of res = (case res of Inl ew \<Rightarrow> Inl (fst ew) | Inr w \<Rightarrow> Inr (X w, Z w))"

definition generate_mesh ::
  "curve \<Rightarrow> curve \<Rightarrow> curve \<Rightarrow> curve \<Rightarrow> int \<Rightarrow> int \<Rightarrow> error + array2 \<times> array2" where
  "generate_mesh bottomc topc leftc rightc nx nz =
     mesh_of (tfi_cell (fresh bottomc topc leftc rightc nx nz))"

subsection \<open>Notions used to state the properties\<close>

text \<open>The loop body run at an arbitrary sequence of nodes: for each \<open>(i, j)\<close> the
  statements \<open>Xi = xi[i]\<close> and the inner body, in the order of the list.\<close>

fun run_nodes :: "(nat \<times> nat) list \<Rightarrow> workspace \<Rightarrow> outcome" where
  "run_nodes [] w = Inr w"
| "run_nodes (p # ps) w =
     seq w (getitem (xi w) (fst p)) (\<lambda>Xi.
       case tfi_body Xi (fst p) (snd p) w of Inl ew \<Rightarrow> Inl ew
       | Inr w' \<Rightarrow> run_nodes ps w')"

text \<open>The blending formula as the cell evaluates it, in binary64, on the two weights and
  the eight curve values of one component:
  \<open>((((1-\<eta>) b + \<eta> t) + (1-\<xi>) l) + \<xi> r)
     - ((((\<xi> \<eta>) t1 + (\<xi> (1-\<eta>)) b1) + (\<eta> (1-\<xi>)) t0) + ((1-\<xi>) (1-\<eta>)) b0)\<close>,
  every operation rounded.\<close>

definition blend ::
  "f64 \<Rightarrow> f64 \<Rightarrow> f64 \<Rightarrow> f64 \<Rightarrow> f64 \<Rightarrow> f64 \<Rightarrow> f64 \<Rightarrow> f64 \<Rightarrow> f64 \<Rightarrow> f64 \<Rightarrow> f64" where
  "blend x e b t l r t1 b1 t0 b0 =
     fsub
       (fadd (fadd (fadd (fmul (fsub (Fin 1) e) b) (fmul e t))
                   (fmul (fsub (Fin 1) x) l))
             (fmul x r))
       (fadd (fadd (fadd (fmul (fmul x e) t1)
                         (fmul (fmul x (fsub (Fin 1) e)) b1))
                   (fmul (fmul e (fsub (Fin 1) x)) t0))
             (fmul (fmul (fsub (Fin 1) x) (fsub (Fin 1) e)) b0))"

text \<open>The formula for one component of curves that always return: \<open>b\<close>, \<open>t\<close>, \<open>l\<close>, \<open>r\<close> are
  the component of the bottom, top, left and right curve.\<close>

definition gordon_hall ::
  "(f64 \<Rightarrow> f64) \<Rightarrow> (f64 \<Rightarrow> f64) \<Rightarrow> (f64 \<Rightarrow> f64) \<Rightarrow> (f64 \<Rightarrow> f64) \<Rightarrow> f64 \<Rightarrow> f64 \<Rightarrow> f64" where
  "gordon_hall b t l r x e =
     blend x e (b x) (t x) (l e) (r e) (t (Fin 1)) (b (Fin 1)) (t (Fin 0)) (b (Fin 0))"

text \<open>The point that the loop body computes for one node, or the exception of the first
  curve evaluation that raises.\<close>

definition bind :: "error + 'a \<Rightarrow> ('a \<Rightarrow> error + 'b) \<Rightarrow> error + 'b" where
  "bind r f = (case r of Inl e \<Rightarrow> Inl e | Inr v \<Rightarrow> f v)"

definition tfi_point :: "curve \<Rightarrow> curve \<Rightarrow> curve \<Rightarrow> curve \<Rightarrow> f64 \<Rightarrow> f64 \<Rightarrow> error + point" where
  "tfi_point cb ct cl cr x e =
     bind (cb x) (\<lambda>xb.
     bind (cb (Fin 0)) (\<lambda>xb0.
     bind (cb (Fin 1)) (\<lambda>xb1.
     bind (ct x) (\<lambda>xt.
     bind (ct (Fin 0)) (\<lambda>xt0.
     bind (ct (Fin 1)) (\<lambda>xt1.
     bind (cl e) (\<lambda>xl.
     bind (cr e) (\<lambda>xr.
     Inr (blend x e (fst xb) (fst xt) (fst xl) (fst xr) (fst xt1) (fst xb1) (fst xt0) (fst xb0),
          blend x e (snd xb) (snd xt) (snd xl) (snd xr) (snd xt1) (snd xb1) (snd xt0) (snd xb0))
     ))))))))"

text \<open>The mesh as a map over independent nodes: entry \<open>(i, j)\<close> is the formula at
  \<open>(xs[i], es[j])\<close>.\<close>

definition mesh_map ::
  "(f64 \<Rightarrow> point) \<Rightarrow> (f64 \<Rightarrow> point) \<Rightarrow> (f64 \<Rightarrow> point) \<Rightarrow> (f64 \<Rightarrow> point) \<Rightarrow>
   f64 list \<Rightarrow> f64 list \<Rightarrow> array2 \<times> array2" where
  "mesh_map b t l r xs es =
     (map (\<lambda>x. map (\<lambda>e. gordon_hall (fst \<circ> b) (fst \<circ> t) (fst \<circ> l) (fst \<circ> r) x e) es) xs,
      map (\<lambda>x. map (\<lambda>e. gordon_hall (snd \<circ> b) (snd \<circ> t) (snd \<circ> l) (snd \<circ> r) x e) es) xs)"

text \<open>An array has shape \<open>(n, m)\<close>: \<open>n\<close> rows of \<open>m\<close> entries.\<close>

definition shape :: "array2 \<Rightarrow> nat \<Rightarrow> nat \<Rightarrow> bool" where
  "shape A n m \<longleftrightarrow> map length A = replicate n m"

text \<open>The samples of the unit interval that the cell draws for \<open>n\<close> points.\<close>

definition samples :: "int \<Rightarrow> f64 list" where
  "samples n = (case linspace (Fin 0) (Fin 1) n of Inl e \<Rightarrow> [] | Inr xs \<Rightarrow> xs)"

text \<open>The array \<open>A\<close> after component \<open>c\<close> of the node's point has been stored at the nodes
  listed in \<open>ps\<close>.\<close>

definition written ::
  "(point \<Rightarrow> f64) \<Rightarrow> curve \<Rightarrow> curve \<Rightarrow> curve \<Rightarrow> curve \<Rightarrow>
   f64 list \<Rightarrow> f64 list \<Rightarrow> (nat \<times> nat) list \<Rightarrow> array2 \<Rightarrow> array2" where
  "written c cb ct cl cr xs es ps A =
     map (\<lambda>i. map (\<lambda>j. if (i, j) \<in> set ps then c (projr (tfi_point cb ct cl cr (xs ! i) (es ! j)))
                         else A ! i ! j)
            [0..<length es]) [0..<length xs]"

text \<open>The nodes that the loops visit before the node \<open>(i, j)\<close>, in the order of the loops,
  for \<open>m\<close> columns.\<close>

definition nodes_before :: "nat \<Rightarrow> nat \<Rightarrow> nat \<Rightarrow> (nat \<times> nat) list" where
  "nodes_before m i j = List.product [0..<i] [0..<m] @ map (Pair i) [0..<j]"

text \<open>The edges of the unit square as boundary curves: \<open>bottom(\<xi>) = (\<xi>, 0)\<close>,
  \<open>top(\<xi>) = (\<xi>, 1)\<close>, \<open>left(\<eta>) = (0, \<eta>)\<close>, \<open>right(\<eta>) = (1, \<eta>)\<close>.\<close>

definition unit_bottom :: curve where
  "unit_bottom = total_curve (\<lambda>x. (x, Fin 0))"

definition unit_top :: curve where
  "unit_top = total_curve (\<lambda>x. (x, Fin 1))"

definition unit_left :: curve where
  "unit_left = total_curve (\<lambda>e. (Fin 0, e))"

definition unit_right :: curve where
  "unit_right = total_curve (\<lambda>e. (Fin 1, e))"

text \<open>A bottom curve that raises at the parameter 1/2 and is the unit-square edge
  elsewhere.\<close>

definition broken_bottom :: curve where
  "broken_bottom = (\<lambda>x. if x = Fin (1 / 2) then Inl CurveError else Inr (x, Fin 0))"

text \<open>The rationals that are binary64 floats: zero, and the multiples of their own spacing
  below \<open>2\<^sup>1\<^sup>0\<^sup>2\<^sup>4\<close>. A float is finite when it is such a rational.\<close>

definition rep64 :: "rat \<Rightarrow> bool" where
  "rep64 a \<longleftrightarrow> a = 0 \<or> (\<bar>a\<bar> < pow2 1024 \<and> of_int \<lfloor>a / quantum a\<rfloor> = a / quantum a)"

definition finite64 :: "f64 \<Rightarrow> bool" where
  "finite64 v = (case v of Fin a \<Rightarrow> rep64 a | PInf \<Rightarrow> False | NInf \<Rightarrow> False | NaN \<Rightarrow> False)"

text \<open>The rational value of a finite float (0 for the others).\<close>

definition val :: "f64 \<Rightarrow> rat" where
  "val v = (case v of Fin a \<Rightarrow> a | PInf \<Rightarrow> 0 | NInf \<Rightarrow> 0 | NaN \<Rightarrow> 0)"

text \<open>What an exception of the cell leaves behind: the error and the arrays \<open>X\<close> and \<open>Z\<close>
  as they are then.\<close>

definition raised :: "outcome \<Rightarrow> (error \<times> array2 \<times> array2) option" where
  "raised res = (case res of Inl ew \<Rightarrow> Some (fst ew, X (snd ew), Z (snd ew)) | Inr w \<Rightarrow> None)"

text \<open>A point whose two coordinates are finite binary64 numbers.\<close>

definition finite_point :: "point \<Rightarrow> bool" where
  "finite_point p \<longleftrightarrow> finite64 (fst p) \<and> finite64 (snd p)"

text \<open>The node \<open>(i, j)\<close> of a mesh.\<close>

definition node :: "array2 \<times> array2 \<Rightarrow> nat \<Rightarrow> nat \<Rightarrow> point" where
  "node m i j = (fst m ! i ! j, snd m ! i ! j)"

text \<open>What the formula leaves at a corner where the bottom or top curve ends in \<open>h\<close> and
  the left or right curve ends in \<open>v\<close>: \<open>(h + v) - h\<close>, each operation rounded.\<close>

definition rounded_corner :: "point \<Rightarrow> point \<Rightarrow> point" where
  "rounded_corner h v =
     (fsub (fadd (fst h) (fst v)) (fst h), fsub (fadd (snd h) (snd v)) (snd h))"

text \<open>A curve that returns the same point at every parameter.\<close>

definition const_curve :: "point \<Rightarrow> curve" where
  "const_curve p = (\<lambda>s. Inr p)"

text \<open>A point with finite coordinates of magnitude below \<open>B\<close>.\<close>

definition magnitude_below :: "rat \<Rightarrow> point \<Rightarrow> bool" where
  "magnitude_below B p \<longleftrightarrow> finite_point p \<and> \<bar>val (fst p)\<bar> < B \<and> \<bar>val (snd p)\<bar> < B"

section \<open>Properties\<close>

subsection \<open>Evaluating binary64 arithmetic\<close>

lemma pow2_code [code]:
  "pow2 k = (if k = 0 then 1
             else if k < 0 then 1 / pow2 (- k)
             else if even k then (let h = pow2 (k div 2) in h * h)
             else 2 * (let h = pow2 (k div 2) in h * h))"
proof -
  have pos: "pow2 k = (if even k then pow2 (k div 2) * pow2 (k div 2)
                        else 2 * (pow2 (k div 2) * pow2 (k div 2)))" if "0 < k" for k
  proof (cases "even k")
    case True
    then obtain j where k: "k = 2 * j" by (auto elim: evenE)
    have "(2::rat) powi (j + j) = 2 powi j * 2 powi j"
      by (rule power_int_add) simp
    moreover have "j + j = k" "k div 2 = j" by (simp_all add: k)
    ultimately show ?thesis using True by (simp add: pow2_def)
  next
    case False
    then obtain j where k: "k = 2 * j + 1" by (auto elim: oddE)
    have "(2::rat) powi (j + j) = 2 powi j * 2 powi j"
      by (rule power_int_add) simp
    moreover have "(2::rat) powi (j + j + 1) = 2 powi (j + j) * 2 powi 1"
      by (rule power_int_add) simp
    moreover have "j + j + 1 = k" "k div 2 = j" by (simp_all add: k)
    ultimately show ?thesis using False by (simp add: pow2_def)
  qed
  show ?thesis
  proof (cases "k = 0")
    case True
    then show ?thesis by (simp add: pow2_def)
  next
    case False
    show ?thesis
    proof (cases "k < 0")
      case True
      then show ?thesis using False by (simp add: pow2_def power_int_minus field_simps)
    next
      case nn: False
      with False have "0 < k" by simp
      from pos [OF this] show ?thesis using False nn by (simp add: Let_def)
    qed
  qed
qed

lemma floor_rat_num [simp]: "\<lfloor>(numeral a :: rat) / numeral b\<rfloor> = numeral a div numeral b"
  using floor_divide_of_int_eq [of "numeral a" "numeral b", where ?'a = rat] by simp

lemma floor_rat_neg [simp]:
  "\<lfloor>- ((numeral a :: rat) / numeral b)\<rfloor> = - numeral a div numeral b"
  using floor_divide_of_int_eq [of "- numeral a" "numeral b", where ?'a = rat] by simp

lemma floor_rat_one [simp]: "\<lfloor>(1 :: rat) / numeral b\<rfloor> = 1 div numeral b"
  using floor_divide_of_int_eq [of 1 "numeral b", where ?'a = rat] by simp

lemma ceiling_rat_num [simp]:
  "\<lceil>(numeral a :: rat) / numeral b\<rceil> = - (- numeral a div numeral b)"
  unfolding ceiling_def using floor_rat_neg [of a b] by simp

lemma bitlen_numeral [simp]: "bitlen (numeral w) = bitlen (numeral w div 2) + 1"
  by (subst compute_bitlen) simp

lemma bitlen_one [simp]: "bitlen 1 = 1"
  by (subst compute_bitlen) simp

lemmas f64_eval = round64_def quantum_def expo_def rne_def pow2_def f64_of_int_def Let_def

lemma round64_0 [simp]: "round64 0 = Fin 0"
  by (simp add: round64_def)

lemma round64_1 [simp]: "round64 1 = Fin 1"
  by (simp add: f64_eval)

subsection \<open>Arrays\<close>

lemma shape_iff: "shape A n m \<longleftrightarrow> length A = n \<and> (\<forall>row \<in> set A. length row = m)"
proof
  assume "shape A n m"
  then have eq: "map length A = replicate n m" by (simp add: shape_def)
  from arg_cong [OF eq, of length] have "length A = n" by simp
  moreover have "\<forall>row \<in> set A. length row = m"
  proof
    fix row assume "row \<in> set A"
    then have "length row \<in> set (map length A)" by simp
    then show "length row = m" unfolding eq by simp
  qed
  ultimately show "length A = n \<and> (\<forall>row \<in> set A. length row = m)" by simp
next
  assume a: "length A = n \<and> (\<forall>row \<in> set A. length row = m)"
  then have "map length A = map (\<lambda>_. m) A" by simp
  also have "\<dots> = replicate n m" using a by (simp add: map_replicate_const)
  finally show "shape A n m" by (simp add: shape_def)
qed

lemma shape_replicate: "shape (replicate n (replicate m v)) n m"
  by (simp add: shape_iff)

lemma shape_update:
  "shape A n m \<Longrightarrow> shape (A[i := (A ! i)[j := v]]) n m"
proof (cases "i < length A")
  case True
  assume "shape A n m"
  then show ?thesis using True
    by (auto simp: shape_iff dest!: set_update_subset_insert [THEN subsetD])
next
  case False
  assume "shape A n m"
  moreover have "A[i := (A ! i)[j := v]] = A" using False by (intro list_update_beyond) simp
  ultimately show ?thesis by simp
qed

lemma shape_ext:
  assumes "shape A n m"
  shows "A = map (\<lambda>i. map (\<lambda>j. A ! i ! j) [0..<m]) [0..<n]"
proof (rule nth_equalityI)
  show "length A = length (map (\<lambda>i. map (\<lambda>j. A ! i ! j) [0..<m]) [0..<n])"
    using assms by (simp add: shape_iff)
next
  fix i assume "i < length A"
  then have i: "i < n" and len: "length (A ! i) = m" using assms by (auto simp: shape_iff)
  show "A ! i = map (\<lambda>i. map (\<lambda>j. A ! i ! j) [0..<m]) [0..<n] ! i"
    using i len by (intro nth_equalityI) auto
qed

lemma update_nth2:
  assumes "shape A n m" "i < n" "j < m" "a < n" "b < m"
  shows "A[i := (A ! i)[j := v]] ! a ! b = (if a = i \<and> b = j then v else A ! a ! b)"
  using assms by (auto simp: shape_iff nth_list_update)

lemma setitem2_shape:
  "shape A n m \<Longrightarrow> i < n \<Longrightarrow> j < m \<Longrightarrow> setitem2 A i j v = Inr (A[i := (A ! i)[j := v]])"
  by (simp add: setitem2_def shape_iff)

subsection \<open>The loop body\<close>

lemma seq_Inl: "seq w (Inl e) f = Inl (e, w)"
  by (simp add: seq_def)

lemma seq_Inr: "seq w (Inr v) f = f v"
  by (simp add: seq_def)

lemma tfi_body_frame:
  "tfi_body Xi i j w = Inr w' \<Longrightarrow> \<exists>A B. w' = w\<lparr>X := A, Z := B\<rparr>"
  by (auto simp: tfi_body_def seq_def split: sum.splits)

lemma tfi_body_point:
  assumes "shape (X w) n m" "shape (Z w) n m" "length (eta w) = m" "i < n" "j < m"
  shows "tfi_body Xi i j w =
     (case tfi_point (Xb w) (Xt w) (Xl w) (Xr w) Xi (eta w ! j) of
        Inl e \<Rightarrow> Inl (e, w)
      | Inr p \<Rightarrow> Inr (w\<lparr>X := (X w)[i := (X w ! i)[j := fst p]],
                        Z := (Z w)[i := (Z w ! i)[j := snd p]]\<rparr>))"
  using assms
  by (simp add: tfi_body_def tfi_point_def blend_def getitem_def seq_def bind_def
        setitem2_shape split: sum.splits)

lemma shape_written: "shape (written c cb ct cl cr xs es ps A) (length xs) (length es)"
  by (auto simp: shape_iff written_def)

lemma written_empty:
  "shape A (length xs) (length es) \<Longrightarrow> written c cb ct cl cr xs es [] A = A"
  unfolding written_def using shape_ext [of A "length xs" "length es"] by simp

lemma written_insert:
  assumes "shape A (length xs) (length es)" "i < length xs" "j < length es"
  shows "written c cb ct cl cr xs es ps
           (A[i := (A ! i)[j := c (projr (tfi_point cb ct cl cr (xs ! i) (es ! j)))]])
         = written c cb ct cl cr xs es ((i, j) # ps) A"
  unfolding written_def using assms by (auto simp: update_nth2)

lemma written_nth:
  "i < length xs \<Longrightarrow> j < length es \<Longrightarrow>
     written c cb ct cl cr xs es ps A ! i ! j =
       (if (i, j) \<in> set ps then c (projr (tfi_point cb ct cl cr (xs ! i) (es ! j)))
        else A ! i ! j)"
  by (simp add: written_def)

lemma run_nodes_frame:
  "run_nodes ps w = Inr w' \<Longrightarrow> \<exists>A B. w' = w\<lparr>X := A, Z := B\<rparr>"
proof (induction ps arbitrary: w)
  case Nil
  then have "w' = w\<lparr>X := X w, Z := Z w\<rparr>" by simp
  then show ?case by blast
next
  case (Cons p ps)
  from Cons.prems obtain Xi w1 where
    b: "tfi_body Xi (fst p) (snd p) w = Inr w1" and r: "run_nodes ps w1 = Inr w'"
    by (auto simp: seq_def split: sum.splits)
  from tfi_body_frame [OF b] obtain A B where w1: "w1 = w\<lparr>X := A, Z := B\<rparr>" by blast
  from Cons.IH [OF r] obtain C D where "w' = w1\<lparr>X := C, Z := D\<rparr>" by blast
  then have "w' = w\<lparr>X := C, Z := D\<rparr>" by (simp add: w1)
  then show ?case by blast
qed

lemma run_nodes_append:
  "run_nodes (ps @ qs) w =
     (case run_nodes ps w of Inl ew \<Rightarrow> Inl ew | Inr w' \<Rightarrow> run_nodes qs w')"
  by (induction ps arbitrary: w) (auto simp: seq_def split: sum.splits)

lemma inner_loop_run_nodes:
  "i < length (xi w) \<Longrightarrow> inner_loop (xi w ! i) i js w = run_nodes (map (Pair i) js) w"
proof (induction js arbitrary: w)
  case Nil
  then show ?case by simp
next
  case (Cons j js)
  show ?case
  proof (cases "tfi_body (xi w ! i) i j w")
    case (Inl ew)
    then show ?thesis using Cons.prems by (simp add: getitem_def seq_def)
  next
    case (Inr w1)
    from tfi_body_frame [OF Inr] have "xi w1 = xi w" by auto
    then show ?thesis using Inr Cons.prems Cons.IH [of w1] by (simp add: getitem_def seq_def)
  qed
qed

lemma outer_loop_run_nodes:
  "\<forall>i \<in> set is. i < length (xi w) \<Longrightarrow>
     outer_loop is w = run_nodes (List.product is [0..<nat (NZ w)]) w"
proof (induction "is" arbitrary: w)
  case Nil
  then show ?case by simp
next
  case (Cons i "is")
  have i: "i < length (xi w)" using Cons.prems by simp
  show ?case
  proof (cases "run_nodes (map (Pair i) [0..<nat (NZ w)]) w")
    case (Inl ew)
    then show ?thesis using i
      by (simp add: getitem_def seq_def inner_loop_run_nodes run_nodes_append)
  next
    case (Inr w1)
    from run_nodes_frame [OF Inr] have same: "xi w1 = xi w" "NZ w1 = NZ w" by auto
    have "outer_loop is w1 = run_nodes (List.product is [0..<nat (NZ w1)]) w1"
      using Cons.prems same by (intro Cons.IH) simp
    then show ?thesis using i Inr same
      by (simp add: getitem_def seq_def inner_loop_run_nodes run_nodes_append)
  qed
qed

lemma run_nodes_ok:
  assumes "shape (X w) (length (xi w)) (length (eta w))"
    and "shape (Z w) (length (xi w)) (length (eta w))"
    and "\<forall>p \<in> set ps. fst p < length (xi w) \<and> snd p < length (eta w)
           \<and> \<not> isl (tfi_point (Xb w) (Xt w) (Xl w) (Xr w) (xi w ! fst p) (eta w ! snd p))"
  shows "run_nodes ps w =
     Inr (w\<lparr>X := written fst (Xb w) (Xt w) (Xl w) (Xr w) (xi w) (eta w) ps (X w),
            Z := written snd (Xb w) (Xt w) (Xl w) (Xr w) (xi w) (eta w) ps (Z w)\<rparr>)"
  using assms
proof (induction ps arbitrary: w)
  case Nil
  then show ?case by (simp add: written_empty)
next
  case (Cons p ps)
  obtain i j where p: "p = (i, j)" by (cases p)
  have ij: "i < length (xi w)" "j < length (eta w)" using Cons.prems(3) p by auto
  have "\<not> isl (tfi_point (Xb w) (Xt w) (Xl w) (Xr w) (xi w ! i) (eta w ! j))"
    using Cons.prems(3) p by auto
  then obtain q where q: "tfi_point (Xb w) (Xt w) (Xl w) (Xr w) (xi w ! i) (eta w ! j) = Inr q"
    by (cases "tfi_point (Xb w) (Xt w) (Xl w) (Xr w) (xi w ! i) (eta w ! j)") auto
  let ?w1 = "w\<lparr>X := (X w)[i := (X w ! i)[j := fst q]],
               Z := (Z w)[i := (Z w ! i)[j := snd q]]\<rparr>"
  have body: "tfi_body (xi w ! i) i j w = Inr ?w1"
    using tfi_body_point [OF Cons.prems(1,2) refl ij, of "xi w ! i"] by (simp add: q)
  have rest: "run_nodes ps ?w1 =
     Inr (?w1\<lparr>X := written fst (Xb ?w1) (Xt ?w1) (Xl ?w1) (Xr ?w1) (xi ?w1) (eta ?w1) ps (X ?w1),
            Z := written snd (Xb ?w1) (Xt ?w1) (Xl ?w1) (Xr ?w1) (xi ?w1) (eta ?w1) ps (Z ?w1)\<rparr>)"
    using Cons.prems by (intro Cons.IH) (auto simp: shape_update)
  have wx: "written fst (Xb w) (Xt w) (Xl w) (Xr w) (xi w) (eta w) ps
              ((X w)[i := (X w ! i)[j := fst q]])
            = written fst (Xb w) (Xt w) (Xl w) (Xr w) (xi w) (eta w) ((i, j) # ps) (X w)"
    using written_insert [OF Cons.prems(1) ij, of fst "Xb w" "Xt w" "Xl w" "Xr w" ps]
    by (simp add: q)
  have wz: "written snd (Xb w) (Xt w) (Xl w) (Xr w) (xi w) (eta w) ps
              ((Z w)[i := (Z w ! i)[j := snd q]])
            = written snd (Xb w) (Xt w) (Xl w) (Xr w) (xi w) (eta w) ((i, j) # ps) (Z w)"
    using written_insert [OF Cons.prems(2) ij, of snd "Xb w" "Xt w" "Xl w" "Xr w" ps]
    by (simp add: q)
  show ?case
    using body rest ij by (simp add: p getitem_def seq_def wx wz)
qed

lemma run_nodes_raise:
  assumes "shape (X w) (length (xi w)) (length (eta w))"
    and "shape (Z w) (length (xi w)) (length (eta w))"
    and "\<forall>p \<in> set ps. fst p < length (xi w) \<and> snd p < length (eta w)
           \<and> \<not> isl (tfi_point (Xb w) (Xt w) (Xl w) (Xr w) (xi w ! fst p) (eta w ! snd p))"
    and "i < length (xi w)" "j < length (eta w)"
    and "tfi_point (Xb w) (Xt w) (Xl w) (Xr w) (xi w ! i) (eta w ! j) = Inl e"
  shows "run_nodes (ps @ (i, j) # qs) w =
     Inl (e, w\<lparr>X := written fst (Xb w) (Xt w) (Xl w) (Xr w) (xi w) (eta w) ps (X w),
               Z := written snd (Xb w) (Xt w) (Xl w) (Xr w) (xi w) (eta w) ps (Z w)\<rparr>)"
proof -
  let ?w1 = "w\<lparr>X := written fst (Xb w) (Xt w) (Xl w) (Xr w) (xi w) (eta w) ps (X w),
               Z := written snd (Xb w) (Xt w) (Xl w) (Xr w) (xi w) (eta w) ps (Z w)\<rparr>"
  have a: "run_nodes ps w = Inr ?w1" by (rule run_nodes_ok [OF assms(1-3)])
  have "tfi_body (xi ?w1 ! i) i j ?w1 =
     (case tfi_point (Xb ?w1) (Xt ?w1) (Xl ?w1) (Xr ?w1) (xi ?w1 ! i) (eta ?w1 ! j) of
        Inl e \<Rightarrow> Inl (e, ?w1)
      | Inr p \<Rightarrow> Inr (?w1\<lparr>X := (X ?w1)[i := (X ?w1 ! i)[j := fst p]],
                        Z := (Z ?w1)[i := (Z ?w1 ! i)[j := snd p]]\<rparr>))"
    using assms(4,5)
    by (intro tfi_body_point [where n = "length (xi w)" and m = "length (eta w)"])
       (simp_all add: shape_written)
  then have b: "tfi_body (xi w ! i) i j ?w1 = Inl (e, ?w1)"
    using assms(6) by simp
  show ?thesis
    using a b assms(4) by (simp add: run_nodes_append getitem_def seq_def)
qed

subsection \<open>The setup and the whole cell\<close>

lemma linspace_samples:
  "0 \<le> n \<Longrightarrow> linspace (Fin 0) (Fin 1) n = Inr (samples n)"
  by (simp add: samples_def linspace_def Let_def)

lemma length_samples: "length (samples n) = nat n"
  by (cases "n < 0") (simp_all add: samples_def linspace_def Let_def)

lemma linspace_negative: "n < 0 \<Longrightarrow> linspace start stop n = Inl ValueError"
  by (simp add: linspace_def)

lemma linspace_Inr: "linspace (Fin 0) (Fin 1) n = Inr xs \<Longrightarrow> 0 \<le> n \<and> xs = samples n"
proof -
  assume a: "linspace (Fin 0) (Fin 1) n = Inr xs"
  have n: "0 \<le> n"
  proof (rule ccontr)
    assume "\<not> 0 \<le> n"
    then have "linspace (Fin 0) (Fin 1) n = Inl ValueError" by (simp add: linspace_def)
    with a show False by simp
  qed
  with a linspace_samples [OF n] show ?thesis by simp
qed

lemma setup_fresh:
  assumes "0 \<le> nx" "0 \<le> nz"
  shows "tfi_setup (fresh cb ct cl cr nx nz) =
     Inr \<lparr>NX = nx, NZ = nz, Xb = cb, Xt = ct, Xl = cl, Xr = cr,
          xi = samples nx, eta = samples nz,
          xi1 = fst (meshgrid (samples nx) (samples nz)),
          eta1 = snd (meshgrid (samples nx) (samples nz)),
          X = replicate (nat nx) (replicate (nat nz) (Fin 0)),
          Z = replicate (nat nx) (replicate (nat nz) (Fin 0))\<rparr>"
  using assms
  by (simp add: tfi_setup_def fresh_def linspace_samples zeros_def seq_def)

lemma tfi_point_total:
  "tfi_point (total_curve b) (total_curve t) (total_curve l) (total_curve r) x e =
     Inr (gordon_hall (fst \<circ> b) (fst \<circ> t) (fst \<circ> l) (fst \<circ> r) x e,
          gordon_hall (snd \<circ> b) (snd \<circ> t) (snd \<circ> l) (snd \<circ> r) x e)"
  by (simp add: tfi_point_def total_curve_def bind_def gordon_hall_def)

lemma written_all_total:
  assumes "set ps = {..<length xs} \<times> {..<length es}"
  shows "written fst (total_curve b) (total_curve t) (total_curve l) (total_curve r) xs es ps A
           = fst (mesh_map b t l r xs es)"
    and "written snd (total_curve b) (total_curve t) (total_curve l) (total_curve r) xs es ps A
           = snd (mesh_map b t l r xs es)"
proof -
  have "written c (total_curve b) (total_curve t) (total_curve l) (total_curve r) xs es ps A
          = map (\<lambda>x. map (\<lambda>e. c (gordon_hall (fst \<circ> b) (fst \<circ> t) (fst \<circ> l) (fst \<circ> r) x e,
                                    gordon_hall (snd \<circ> b) (snd \<circ> t) (snd \<circ> l) (snd \<circ> r) x e)) es) xs"
    for c :: "point \<Rightarrow> f64"
    unfolding written_def tfi_point_total using assms by (intro nth_equalityI) auto
  from this [of fst] this [of snd]
  show "written fst (total_curve b) (total_curve t) (total_curve l) (total_curve r) xs es ps A
           = fst (mesh_map b t l r xs es)"
    and "written snd (total_curve b) (total_curve t) (total_curve l) (total_curve r) xs es ps A
           = snd (mesh_map b t l r xs es)"
    by (simp_all add: mesh_map_def)
qed

lemma loop_total:
  fixes w :: workspace
  assumes "Xb w = total_curve b" "Xt w = total_curve t" "Xl w = total_curve l"
    "Xr w = total_curve r"
    and "shape (X w) (length (xi w)) (length (eta w))"
    and "shape (Z w) (length (xi w)) (length (eta w))"
    and "set ps = {..<length (xi w)} \<times> {..<length (eta w)}"
  shows "run_nodes ps w =
     Inr (w\<lparr>X := fst (mesh_map b t l r (xi w) (eta w)),
            Z := snd (mesh_map b t l r (xi w) (eta w))\<rparr>)"
proof -
  have "\<forall>p \<in> set ps. fst p < length (xi w) \<and> snd p < length (eta w)
           \<and> \<not> isl (tfi_point (Xb w) (Xt w) (Xl w) (Xr w) (xi w ! fst p) (eta w ! snd p))"
    using assms(7) by (auto simp: assms(1-4) tfi_point_total)
  from run_nodes_ok [OF assms(5,6) this] show ?thesis
    by (simp add: assms(1-4) written_all_total [OF assms(7)])
qed

lemma nested_loop_total:
  fixes w :: workspace
  assumes "Xb w = total_curve b" "Xt w = total_curve t" "Xl w = total_curve l"
    "Xr w = total_curve r"
    and "shape (X w) (length (xi w)) (length (eta w))"
    and "shape (Z w) (length (xi w)) (length (eta w))"
    and "length (eta w) = nat (NZ w)"
  shows "outer_loop [0..<length (xi w)] w =
     Inr (w\<lparr>X := fst (mesh_map b t l r (xi w) (eta w)),
            Z := snd (mesh_map b t l r (xi w) (eta w))\<rparr>)"
proof -
  have "\<forall>i \<in> set [0..<length (xi w)]. i < length (xi w)" by auto
  from outer_loop_run_nodes [OF this]
  have "outer_loop [0..<length (xi w)] w
          = run_nodes (List.product [0..<length (xi w)] [0..<nat (NZ w)]) w" .
  also have "\<dots> = Inr (w\<lparr>X := fst (mesh_map b t l r (xi w) (eta w)),
            Z := snd (mesh_map b t l r (xi w) (eta w))\<rparr>)"
    using assms(1-6) by (intro loop_total) (auto simp: assms(7))
  finally show ?thesis .
qed

lemma generate_mesh_total:
  assumes "0 \<le> nx" "0 \<le> nz"
  shows "generate_mesh (total_curve b) (total_curve t) (total_curve l) (total_curve r) nx nz
         = Inr (mesh_map b t l r (samples nx) (samples nz))"
proof -
  let ?u = "\<lparr>NX = nx, NZ = nz, Xb = total_curve b, Xt = total_curve t, Xl = total_curve l,
          Xr = total_curve r, xi = samples nx, eta = samples nz,
          xi1 = fst (meshgrid (samples nx) (samples nz)),
          eta1 = snd (meshgrid (samples nx) (samples nz)),
          X = replicate (nat nx) (replicate (nat nz) (Fin 0)),
          Z = replicate (nat nx) (replicate (nat nz) (Fin 0))\<rparr>"
  have s: "tfi_setup (fresh (total_curve b) (total_curve t) (total_curve l) (total_curve r) nx nz)
         = Inr ?u"
    by (rule setup_fresh [OF assms])
  have "outer_loop [0..<length (xi ?u)] ?u =
     Inr (?u\<lparr>X := fst (mesh_map b t l r (xi ?u) (eta ?u)),
            Z := snd (mesh_map b t l r (xi ?u) (eta ?u))\<rparr>)"
    using assms by (intro nested_loop_total) (simp_all add: length_samples shape_replicate)
  then show ?thesis
    by (simp add: generate_mesh_def tfi_cell_def s mesh_of_def length_samples)
qed

lemma mesh_map_nth:
  assumes "i < length xs" "j < length es"
  shows "fst (mesh_map b t l r xs es) ! i ! j
           = gordon_hall (\<lambda>x. fst (b x)) (\<lambda>x. fst (t x)) (\<lambda>x. fst (l x)) (\<lambda>x. fst (r x))
               (xs ! i) (es ! j)"
    and "snd (mesh_map b t l r xs es) ! i ! j
           = gordon_hall (\<lambda>x. snd (b x)) (\<lambda>x. snd (t x)) (\<lambda>x. snd (l x)) (\<lambda>x. snd (r x))
               (xs ! i) (es ! j)"
  using assms by (simp_all add: mesh_map_def comp_def)

subsection \<open>The loops\<close>

text \<open>
  Claim C6. For a valid call (curves that always return, \<open>nx, nz \<ge> 2\<close>) the two arrays
  \<open>X\<close> and \<open>Z\<close> of the result have shape \<open>(nx, nz)\<close>, and the loops write every entry of
  both: whatever arrays of that shape the loops start from in place of the zero arrays, the
  result is the same mesh, so no entry keeps its initial value.
\<close>

theorem shape_postcondition:
  assumes nx: "2 \<le> nx" and nz: "2 \<le> nz"
  shows "\<exists>w0 Xm Zm.
       tfi_setup (fresh (total_curve b) (total_curve t) (total_curve l) (total_curve r) nx nz)
         = Inr w0
     \<and> generate_mesh (total_curve b) (total_curve t) (total_curve l) (total_curve r) nx nz
         = Inr (Xm, Zm)
     \<and> shape Xm (nat nx) (nat nz) \<and> shape Zm (nat nx) (nat nz)
     \<and> (\<forall>A C. shape A (nat nx) (nat nz) \<and> shape C (nat nx) (nat nz) \<longrightarrow>
           mesh_of (outer_loop [0..<nat nx] (w0\<lparr>X := A, Z := C\<rparr>)) = Inr (Xm, Zm))"
proof -
  let ?M = "mesh_map b t l r (samples nx) (samples nz)"
  let ?u = "\<lparr>NX = nx, NZ = nz, Xb = total_curve b, Xt = total_curve t, Xl = total_curve l,
          Xr = total_curve r, xi = samples nx, eta = samples nz,
          xi1 = fst (meshgrid (samples nx) (samples nz)),
          eta1 = snd (meshgrid (samples nx) (samples nz)),
          X = replicate (nat nx) (replicate (nat nz) (Fin 0)),
          Z = replicate (nat nx) (replicate (nat nz) (Fin 0))\<rparr>"
  have pos: "0 \<le> nx" "0 \<le> nz" using nx nz by simp_all
  have s: "tfi_setup (fresh (total_curve b) (total_curve t) (total_curve l) (total_curve r) nx nz)
         = Inr ?u"
    by (rule setup_fresh [OF pos])
  have g: "generate_mesh (total_curve b) (total_curve t) (total_curve l) (total_curve r) nx nz
             = Inr (fst ?M, snd ?M)"
    using generate_mesh_total [OF pos] by simp
  have sh: "shape (fst ?M) (nat nx) (nat nz)" "shape (snd ?M) (nat nx) (nat nz)"
    by (simp_all add: mesh_map_def shape_iff length_samples)
  have w: "\<forall>A C. shape A (nat nx) (nat nz) \<and> shape C (nat nx) (nat nz) \<longrightarrow>
           mesh_of (outer_loop [0..<nat nx] (?u\<lparr>X := A, Z := C\<rparr>)) = Inr (fst ?M, snd ?M)"
  proof (intro allI impI)
    fix A C assume ac: "shape A (nat nx) (nat nz) \<and> shape C (nat nx) (nat nz)"
    have "outer_loop [0..<length (xi (?u\<lparr>X := A, Z := C\<rparr>))] (?u\<lparr>X := A, Z := C\<rparr>) =
       Inr ((?u\<lparr>X := A, Z := C\<rparr>)
              \<lparr>X := fst (mesh_map b t l r (xi (?u\<lparr>X := A, Z := C\<rparr>)) (eta (?u\<lparr>X := A, Z := C\<rparr>))),
               Z := snd (mesh_map b t l r (xi (?u\<lparr>X := A, Z := C\<rparr>)) (eta (?u\<lparr>X := A, Z := C\<rparr>)))\<rparr>)"
      using ac pos by (intro nested_loop_total) (simp_all add: length_samples)
    then show "mesh_of (outer_loop [0..<nat nx] (?u\<lparr>X := A, Z := C\<rparr>)) = Inr (fst ?M, snd ?M)"
      by (simp add: length_samples mesh_of_def)
  qed
  show ?thesis
    by (intro exI [of _ ?u] exI [of _ "fst ?M"] exI [of _ "snd ?M"] conjI s g sh w)
qed

theorem shape_postcondition_witness:
  "(2::int) \<le> 2 \<and> (2::int) \<le> 2
   \<and> shape [[Fin 7, Fin 8], [Fin 9, Fin 10]] (nat 2) (nat 2)
   \<and> shape [[Fin 1, Fin 2], [Fin 3, Fin 4]] (nat 2) (nat 2)
   \<and> (\<exists>w0 Xm Zm.
       tfi_setup (fresh unit_bottom unit_top unit_left unit_right 2 2) = Inr w0
     \<and> generate_mesh unit_bottom unit_top unit_left unit_right 2 2 = Inr (Xm, Zm)
     \<and> shape Xm (nat 2) (nat 2) \<and> shape Zm (nat 2) (nat 2)
     \<and> mesh_of (outer_loop [0..<nat 2]
                  (w0\<lparr>X := [[Fin 7, Fin 8], [Fin 9, Fin 10]],
                      Z := [[Fin 1, Fin 2], [Fin 3, Fin 4]]\<rparr>))
         = Inr (Xm, Zm))"
proof -
  have sh: "shape [[Fin 7, Fin 8], [Fin 9, Fin 10]] (nat 2) (nat 2)
            \<and> shape [[Fin 1, Fin 2], [Fin 3, Fin 4]] (nat 2) (nat 2)"
    by (simp add: shape_def numeral_2_eq_2)
  from shape_postcondition [of 2 2 "\<lambda>x. (x, Fin 0)" "\<lambda>x. (x, Fin 1)" "\<lambda>e. (Fin 0, e)"
                               "\<lambda>e. (Fin 1, e)"]
  obtain w0 Xm Zm where
    a: "tfi_setup (fresh unit_bottom unit_top unit_left unit_right 2 2) = Inr w0"
    "generate_mesh unit_bottom unit_top unit_left unit_right 2 2 = Inr (Xm, Zm)"
    "shape Xm (nat 2) (nat 2)" "shape Zm (nat 2) (nat 2)"
    and w: "\<forall>A C. shape A (nat 2) (nat 2) \<and> shape C (nat 2) (nat 2) \<longrightarrow>
           mesh_of (outer_loop [0..<nat 2] (w0\<lparr>X := A, Z := C\<rparr>)) = Inr (Xm, Zm)"
    unfolding unit_bottom_def unit_top_def unit_left_def unit_right_def by auto
  from w sh have "mesh_of (outer_loop [0..<nat 2]
                  (w0\<lparr>X := [[Fin 7, Fin 8], [Fin 9, Fin 10]],
                      Z := [[Fin 1, Fin 2], [Fin 3, Fin 4]]\<rparr>))
         = Inr (Xm, Zm)"
    by blast
  with a sh show ?thesis by auto
qed

text \<open>
  Claim C7. The nested loops over the mutable arrays compute the map over independent
  nodes: for curves that always return, the result of the cell is \<open>mesh_map\<close>, whose entry
  \<open>(i, j)\<close> is a function of \<open>xi[i]\<close>, \<open>eta[j]\<close> and the four curves only, and running the loop
  body once or more at every node, in any order \<open>ps\<close>, gives the same two arrays.
\<close>

theorem loop_refines_node_map:
  assumes nx: "0 \<le> nx" and nz: "0 \<le> nz"
    and ps: "set ps = {..<nat nx} \<times> {..<nat nz}"
  shows "\<exists>w0.
       tfi_setup (fresh (total_curve b) (total_curve t) (total_curve l) (total_curve r) nx nz)
         = Inr w0
     \<and> generate_mesh (total_curve b) (total_curve t) (total_curve l) (total_curve r) nx nz
         = Inr (mesh_map b t l r (xi w0) (eta w0))
     \<and> mesh_of (run_nodes ps w0) = Inr (mesh_map b t l r (xi w0) (eta w0))"
proof -
  let ?u = "\<lparr>NX = nx, NZ = nz, Xb = total_curve b, Xt = total_curve t, Xl = total_curve l,
          Xr = total_curve r, xi = samples nx, eta = samples nz,
          xi1 = fst (meshgrid (samples nx) (samples nz)),
          eta1 = snd (meshgrid (samples nx) (samples nz)),
          X = replicate (nat nx) (replicate (nat nz) (Fin 0)),
          Z = replicate (nat nx) (replicate (nat nz) (Fin 0))\<rparr>"
  have s: "tfi_setup (fresh (total_curve b) (total_curve t) (total_curve l) (total_curve r) nx nz)
         = Inr ?u"
    by (rule setup_fresh [OF nx nz])
  have g: "generate_mesh (total_curve b) (total_curve t) (total_curve l) (total_curve r) nx nz
             = Inr (mesh_map b t l r (xi ?u) (eta ?u))"
    using generate_mesh_total [OF nx nz] by simp
  have "run_nodes ps ?u = Inr (?u\<lparr>X := fst (mesh_map b t l r (xi ?u) (eta ?u)),
            Z := snd (mesh_map b t l r (xi ?u) (eta ?u))\<rparr>)"
    by (rule loop_total) (simp_all add: length_samples shape_replicate ps)
  then have r: "mesh_of (run_nodes ps ?u) = Inr (mesh_map b t l r (xi ?u) (eta ?u))"
    by (simp add: mesh_of_def)
  show ?thesis
    by (intro exI [of _ ?u] conjI s g r)
qed

theorem loop_refines_node_map_witness:
  "(0::int) \<le> 2 \<and> (0::int) \<le> 2
   \<and> set [(1, 1), (0, 1), (1, 0), (0, 0), (1, 1)] = {..<nat 2} \<times> {..<nat 2}
   \<and> (\<exists>w0.
       tfi_setup (fresh (total_curve (\<lambda>x. (x, fmul x x))) (total_curve (\<lambda>x. (x, fsub (Fin 3) x)))
                        (total_curve (\<lambda>e. (Fin 0, fmul (Fin 3) e)))
                        (total_curve (\<lambda>e. (Fin 1, fadd (Fin 1) e))) 2 2)
         = Inr w0
     \<and> generate_mesh (total_curve (\<lambda>x. (x, fmul x x))) (total_curve (\<lambda>x. (x, fsub (Fin 3) x)))
                      (total_curve (\<lambda>e. (Fin 0, fmul (Fin 3) e)))
                      (total_curve (\<lambda>e. (Fin 1, fadd (Fin 1) e))) 2 2
         = Inr (mesh_map (\<lambda>x. (x, fmul x x)) (\<lambda>x. (x, fsub (Fin 3) x))
                  (\<lambda>e. (Fin 0, fmul (Fin 3) e)) (\<lambda>e. (Fin 1, fadd (Fin 1) e))
                  (xi w0) (eta w0))
     \<and> mesh_of (run_nodes [(1, 1), (0, 1), (1, 0), (0, 0), (1, 1)] w0)
         = Inr (mesh_map (\<lambda>x. (x, fmul x x)) (\<lambda>x. (x, fsub (Fin 3) x))
                  (\<lambda>e. (Fin 0, fmul (Fin 3) e)) (\<lambda>e. (Fin 1, fadd (Fin 1) e))
                  (xi w0) (eta w0)))"
proof -
  have ps: "set [(1, 1), (0, 1), (1, 0), (0, 0), (1::nat, 1::nat)] = {..<nat 2} \<times> {..<nat 2}"
    by (auto simp: numeral_2_eq_2 less_Suc_eq)
  from loop_refines_node_map [OF _ _ ps, of "\<lambda>x. (x, fmul x x)" "\<lambda>x. (x, fsub (Fin 3) x)"
         "\<lambda>e. (Fin 0, fmul (Fin 3) e)" "\<lambda>e. (Fin 1, fadd (Fin 1) e)"] ps
  show ?thesis by simp
qed

text \<open>
  Claim C8. Two runs of the cell with the same curves and the same \<open>NX\<close>, \<open>NZ\<close> give the
  same result \<open>(X, Z)\<close>, or the same exception, whatever the other globals hold before
  each run (the arrays and samples left by earlier runs); the result is the function
  \<open>generate_mesh\<close> of the six inputs. When \<open>NX\<close> and \<open>NZ\<close> are not negative the two runs
  also leave all the globals the same, after an exception too.
\<close>

theorem cell_deterministic:
  fixes w1 w2 :: workspace
  assumes "NX w1 = NX w2" "NZ w1 = NZ w2"
    and "Xb w1 = Xb w2" "Xt w1 = Xt w2" "Xl w1 = Xl w2" "Xr w1 = Xr w2"
  shows "mesh_of (tfi_cell w1) = mesh_of (tfi_cell w2)
     \<and> mesh_of (tfi_cell w1) = generate_mesh (Xb w1) (Xt w1) (Xl w1) (Xr w1) (NX w1) (NZ w1)
     \<and> (0 \<le> NX w1 \<and> 0 \<le> NZ w1 \<longrightarrow> tfi_cell w1 = tfi_cell w2)"
proof -
  have upd: "\<And>(u::workspace) (v::workspace) a b c d e f.
      NX u = NX v \<Longrightarrow> NZ u = NZ v \<Longrightarrow> Xb u = Xb v \<Longrightarrow> Xt u = Xt v \<Longrightarrow> Xl u = Xl v \<Longrightarrow>
      Xr u = Xr v \<Longrightarrow>
      u\<lparr>xi := a, eta := b, xi1 := c, eta1 := d, X := e, Z := f\<rparr>
        = v\<lparr>xi := a, eta := b, xi1 := c, eta1 := d, X := e, Z := f\<rparr>"
    by simp
  have ok: "tfi_setup u = tfi_setup v"
    if "NX u = NX v" "NZ u = NZ v" "Xb u = Xb v" "Xt u = Xt v" "Xl u = Xl v" "Xr u = Xr v"
      "0 \<le> NX u" "0 \<le> NZ u" for u v :: workspace
    using that upd [OF that(1-6)]
    by (simp add: tfi_setup_def linspace_samples zeros_def seq_def)
  have bad: "mesh_of (tfi_cell u) = Inl ValueError"
    if "NX u < 0 \<or> NZ u < 0" for u :: workspace
  proof (cases "NX u < 0")
    case True
    then show ?thesis
      by (simp add: tfi_cell_def tfi_setup_def linspace_negative seq_def mesh_of_def)
  next
    case False
    then have "0 \<le> NX u" "NZ u < 0" using that by simp_all
    then show ?thesis
      by (simp add: tfi_cell_def tfi_setup_def linspace_negative linspace_samples seq_def
            mesh_of_def)
  qed
  have same: "mesh_of (tfi_cell u) = mesh_of (tfi_cell v) \<and> (0 \<le> NX u \<and> 0 \<le> NZ u \<longrightarrow> tfi_cell u = tfi_cell v)"
    if "NX u = NX v" "NZ u = NZ v" "Xb u = Xb v" "Xt u = Xt v" "Xl u = Xl v" "Xr u = Xr v"
    for u v :: workspace
  proof (cases "0 \<le> NX u \<and> 0 \<le> NZ u")
    case True
    then have "tfi_setup u = tfi_setup v" using ok [OF that] by simp
    then have "tfi_cell u = tfi_cell v" by (simp add: tfi_cell_def)
    then show ?thesis by simp
  next
    case False
    then have "NX u < 0 \<or> NZ u < 0" "NX v < 0 \<or> NZ v < 0" using that by auto
    then show ?thesis using bad [of u] bad [of v] False by auto
  qed
  have f: "mesh_of (tfi_cell w1)
             = mesh_of (tfi_cell (fresh (Xb w1) (Xt w1) (Xl w1) (Xr w1) (NX w1) (NZ w1)))"
    using same [of w1 "fresh (Xb w1) (Xt w1) (Xl w1) (Xr w1) (NX w1) (NZ w1)"]
    by (simp add: fresh_def)
  show ?thesis using same [OF assms] f by (simp add: generate_mesh_def)
qed

theorem cell_deterministic_witness:
  "NX (fresh unit_bottom unit_top unit_left unit_right 2 2)
     = NX ((fresh unit_bottom unit_top unit_left unit_right 2 2)
             \<lparr>xi := [Fin 9], X := [[Fin 5]], Z := [[Fin 6, Fin 7]]\<rparr>)
   \<and> NZ (fresh unit_bottom unit_top unit_left unit_right 2 2)
     = NZ ((fresh unit_bottom unit_top unit_left unit_right 2 2)
             \<lparr>xi := [Fin 9], X := [[Fin 5]], Z := [[Fin 6, Fin 7]]\<rparr>)
   \<and> Xb (fresh unit_bottom unit_top unit_left unit_right 2 2)
     = Xb ((fresh unit_bottom unit_top unit_left unit_right 2 2)
             \<lparr>xi := [Fin 9], X := [[Fin 5]], Z := [[Fin 6, Fin 7]]\<rparr>)
   \<and> Xt (fresh unit_bottom unit_top unit_left unit_right 2 2)
     = Xt ((fresh unit_bottom unit_top unit_left unit_right 2 2)
             \<lparr>xi := [Fin 9], X := [[Fin 5]], Z := [[Fin 6, Fin 7]]\<rparr>)
   \<and> Xl (fresh unit_bottom unit_top unit_left unit_right 2 2)
     = Xl ((fresh unit_bottom unit_top unit_left unit_right 2 2)
             \<lparr>xi := [Fin 9], X := [[Fin 5]], Z := [[Fin 6, Fin 7]]\<rparr>)
   \<and> Xr (fresh unit_bottom unit_top unit_left unit_right 2 2)
     = Xr ((fresh unit_bottom unit_top unit_left unit_right 2 2)
             \<lparr>xi := [Fin 9], X := [[Fin 5]], Z := [[Fin 6, Fin 7]]\<rparr>)
   \<and> (0::int) \<le> 2 \<and> (0::int) \<le> 2
   \<and> mesh_of (tfi_cell (fresh unit_bottom unit_top unit_left unit_right 2 2))
     = mesh_of (tfi_cell ((fresh unit_bottom unit_top unit_left unit_right 2 2)
                            \<lparr>xi := [Fin 9], X := [[Fin 5]], Z := [[Fin 6, Fin 7]]\<rparr>))
   \<and> mesh_of (tfi_cell (fresh unit_bottom unit_top unit_left unit_right 2 2))
     = generate_mesh unit_bottom unit_top unit_left unit_right 2 2
   \<and> tfi_cell (fresh unit_bottom unit_top unit_left unit_right 2 2)
     = tfi_cell ((fresh unit_bottom unit_top unit_left unit_right 2 2)
                   \<lparr>xi := [Fin 9], X := [[Fin 5]], Z := [[Fin 6, Fin 7]]\<rparr>)"
  using cell_deterministic [of "fresh unit_bottom unit_top unit_left unit_right 2 2"
          "(fresh unit_bottom unit_top unit_left unit_right 2 2)
             \<lparr>xi := [Fin 9], X := [[Fin 5]], Z := [[Fin 6, Fin 7]]\<rparr>"]
  by (auto simp: fresh_def)

lemma samples_one: "samples 1 = [Fin 0]"
  by (simp add: samples_def linspace_def f64_eval)

lemma samples_two: "samples 2 = [Fin 0, Fin 1]"
  by (simp add: samples_def linspace_def f64_eval upt_rec)

lemma samples_three: "samples 3 = [Fin 0, Fin (1 / 2), Fin 1]"
  by (simp add: samples_def linspace_def f64_eval upt_rec)

lemma samples_four: "samples 4 = [Fin 0, Fin (6004799503160661 / 18014398509481984), Fin (6004799503160661 / 9007199254740992), Fin 1]"
  by (simp add: samples_def linspace_def f64_eval upt_rec)

subsection \<open>Invalid arguments and exceptions\<close>

text \<open>
  Claim C4 as stated fails twice. With \<open>nx = 1\<close> and the edges of the unit square as
  curves the cell raises nothing and returns the one-row mesh sampled at \<open>\<xi> = 0\<close>. And
  when the bottom curve raises at \<open>\<xi> = 1/2\<close> on a \<open>3 \<times> 2\<close> grid, the exception leaves
  \<open>X\<close> and \<open>Z\<close> allocated, with the first row already written.
\<close>

theorem no_resolution_check_counterexample:
  "generate_mesh unit_bottom unit_top unit_left unit_right 1 2
     = Inr ([[Fin 0, Fin 0]], [[Fin 0, Fin 1]])
   \<and> raised (tfi_cell (fresh broken_bottom unit_top unit_left unit_right 3 2))
     = Some (CurveError, [[Fin 0, Fin 0], [Fin 0, Fin 0], [Fin 0, Fin 0]],
                         [[Fin 0, Fin 1], [Fin 0, Fin 0], [Fin 0, Fin 0]])"
proof
  show "generate_mesh unit_bottom unit_top unit_left unit_right 1 2
     = Inr ([[Fin 0, Fin 0]], [[Fin 0, Fin 1]])"
    by (simp add: unit_bottom_def unit_top_def unit_left_def unit_right_def generate_mesh_total
        samples_one samples_two mesh_map_def gordon_hall_def blend_def f64_eval)
next
  have s: "tfi_setup (fresh broken_bottom unit_top unit_left unit_right 3 2) =
     Inr \<lparr>NX = 3, NZ = 2, Xb = broken_bottom, Xt = unit_top, Xl = unit_left, Xr = unit_right,
          xi = samples 3, eta = samples 2,
          xi1 = fst (meshgrid (samples 3) (samples 2)),
          eta1 = snd (meshgrid (samples 3) (samples 2)),
          X = replicate (nat 3) (replicate (nat 2) (Fin 0)),
          Z = replicate (nat 3) (replicate (nat 2) (Fin 0))\<rparr>"
    by (rule setup_fresh) simp_all
  show "raised (tfi_cell (fresh broken_bottom unit_top unit_left unit_right 3 2))
     = Some (CurveError, [[Fin 0, Fin 0], [Fin 0, Fin 0], [Fin 0, Fin 0]],
                         [[Fin 0, Fin 1], [Fin 0, Fin 0], [Fin 0, Fin 0]])"
    unfolding tfi_cell_def s
    by (simp add: samples_three samples_two raised_def upt_rec numeral_2_eq_2
          numeral_3_eq_3 getitem_def seq_def tfi_body_def setitem2_def broken_bottom_def
          unit_top_def unit_left_def unit_right_def total_curve_def f64_eval)
qed

text \<open>The state of the cell at an exception.\<close>

lemma product_append: "List.product (xs @ ys) zs = List.product xs zs @ List.product ys zs"
  by (induction xs) simp_all

lemma upt_split: "i < n \<Longrightarrow> [0..<n] = [0..<i] @ i # [Suc i..<n]"
  using upt_add_eq_append [of 0 i "n - i"] by (simp add: upt_conv_Cons)

lemma product_split:
  assumes "i < n" "j < m"
  shows "List.product [0..<n] [0..<m] =
     nodes_before m i j @ (i, j) # (map (Pair i) [Suc j..<m] @ List.product [Suc i..<n] [0..<m])"
proof -
  have "List.product [0..<n] [0..<m]
          = List.product [0..<i] [0..<m] @ map (Pair i) [0..<m] @ List.product [Suc i..<n] [0..<m]"
    by (subst upt_split [OF assms(1)]) (simp add: product_append)
  also have "map (Pair i) [0..<m] = map (Pair i) [0..<j] @ (i, j) # map (Pair i) [Suc j..<m]"
    by (subst upt_split [OF assms(2)]) simp
  finally show ?thesis by (simp add: nodes_before_def)
qed

lemma set_nodes_before:
  "(a, b) \<in> set (nodes_before m i j) \<longleftrightarrow> (a < i \<and> b < m) \<or> (a = i \<and> b < j)"
  by (auto simp: nodes_before_def)

lemma tfi_body_raises:
  assumes "isl (Xb w Xi) \<or> isl (Xb w (Fin 0)) \<or> isl (Xb w (Fin 1)) \<or> isl (Xt w Xi)
           \<or> isl (Xt w (Fin 0)) \<or> isl (Xt w (Fin 1)) \<or> isl (Xl w (eta w ! j))
           \<or> isl (Xr w (eta w ! j))"
  shows "isl (tfi_body Xi i j w)"
  using assms unfolding tfi_body_def seq_def getitem_def
  by (auto split: sum.splits)

lemma run_nodes_raises:
  assumes "(i, j) \<in> set ps"
    and "isl (Xb w (xi w ! i)) \<or> isl (Xb w (Fin 0)) \<or> isl (Xb w (Fin 1))
         \<or> isl (Xt w (xi w ! i)) \<or> isl (Xt w (Fin 0)) \<or> isl (Xt w (Fin 1))
         \<or> isl (Xl w (eta w ! j)) \<or> isl (Xr w (eta w ! j))"
  shows "isl (run_nodes ps w)"
  using assms
proof (induction ps arbitrary: w)
  case Nil
  then show ?case by simp
next
  case (Cons p ps)
  show ?case
  proof (cases "getitem (xi w) (fst p)")
    case (Inl e)
    then show ?thesis by (simp add: seq_def)
  next
    case (Inr Xi)
    then have Xi: "Xi = xi w ! fst p" by (simp add: getitem_def split: if_splits)
    show ?thesis
    proof (cases "tfi_body Xi (fst p) (snd p) w")
      case (Inl ew)
      then show ?thesis using Inr by (simp add: seq_def)
    next
      case body: (Inr w1)
      from tfi_body_frame [OF body] obtain A B where w1: "w1 = w\<lparr>X := A, Z := B\<rparr>" by blast
      have "p \<noteq> (i, j)"
      proof
        assume "p = (i, j)"
        then have "isl (tfi_body Xi (fst p) (snd p) w)"
          using Cons.prems(2) Xi by (intro tfi_body_raises) simp
        then show False using body by simp
      qed
      then have "(i, j) \<in> set ps" using Cons.prems(1) by auto
      then have "isl (run_nodes ps w1)"
        using Cons.prems(2) by (intro Cons.IH) (simp_all add: w1)
      then show ?thesis using Inr body by (simp add: seq_def)
    qed
  qed
qed

lemma cell_after_setup:
  assumes "0 \<le> nx" "0 \<le> nz"
  shows "tfi_cell (fresh cb ct cl cr nx nz) =
     run_nodes (List.product [0..<nat nx] [0..<nat nz])
       \<lparr>NX = nx, NZ = nz, Xb = cb, Xt = ct, Xl = cl, Xr = cr,
        xi = samples nx, eta = samples nz,
        xi1 = fst (meshgrid (samples nx) (samples nz)),
        eta1 = snd (meshgrid (samples nx) (samples nz)),
        X = replicate (nat nx) (replicate (nat nz) (Fin 0)),
        Z = replicate (nat nx) (replicate (nat nz) (Fin 0))\<rparr>"
proof -
  let ?u = "\<lparr>NX = nx, NZ = nz, Xb = cb, Xt = ct, Xl = cl, Xr = cr,
        xi = samples nx, eta = samples nz,
        xi1 = fst (meshgrid (samples nx) (samples nz)),
        eta1 = snd (meshgrid (samples nx) (samples nz)),
        X = replicate (nat nx) (replicate (nat nz) (Fin 0)),
        Z = replicate (nat nx) (replicate (nat nz) (Fin 0))\<rparr>"
  have "\<forall>k \<in> set [0..<nat nx]. k < length (xi ?u)" by (simp add: length_samples)
  from outer_loop_run_nodes [OF this]
  have "outer_loop [0..<nat nx] ?u = run_nodes (List.product [0..<nat nx] [0..<nat nz]) ?u"
    by simp
  then show ?thesis
    by (simp add: tfi_cell_def setup_fresh [OF assms])
qed

lemma generate_mesh_raises:
  assumes nx: "0 \<le> nx" and nz: "0 \<le> nz" and i: "i < nat nx" and j: "j < nat nz"
    and bad: "isl (cb (samples nx ! i)) \<or> isl (cb (Fin 0)) \<or> isl (cb (Fin 1))
         \<or> isl (ct (samples nx ! i)) \<or> isl (ct (Fin 0)) \<or> isl (ct (Fin 1))
         \<or> isl (cl (samples nz ! j)) \<or> isl (cr (samples nz ! j))"
  shows "isl (generate_mesh cb ct cl cr nx nz)"
proof -
  let ?u = "\<lparr>NX = nx, NZ = nz, Xb = cb, Xt = ct, Xl = cl, Xr = cr,
        xi = samples nx, eta = samples nz,
        xi1 = fst (meshgrid (samples nx) (samples nz)),
        eta1 = snd (meshgrid (samples nx) (samples nz)),
        X = replicate (nat nx) (replicate (nat nz) (Fin 0)),
        Z = replicate (nat nx) (replicate (nat nz) (Fin 0))\<rparr>"
  have "isl (run_nodes (List.product [0..<nat nx] [0..<nat nz]) ?u)"
    using i j bad by (intro run_nodes_raises [of i j]) simp_all
  then obtain ew where "run_nodes (List.product [0..<nat nx] [0..<nat nz]) ?u = Inl ew"
    by (cases "run_nodes (List.product [0..<nat nx] [0..<nat nz]) ?u") simp_all
  then show ?thesis
    by (simp add: generate_mesh_def cell_after_setup [OF nx nz] mesh_of_def)
qed

lemma cell_raise:
  assumes nx: "0 \<le> nx" and nz: "0 \<le> nz" and i: "i < nat nx" and j: "j < nat nz"
    and bad: "tfi_point cb ct cl cr (samples nx ! i) (samples nz ! j) = Inl e"
    and good: "\<forall>p \<in> set (nodes_before (nat nz) i j).
                 \<not> isl (tfi_point cb ct cl cr (samples nx ! fst p) (samples nz ! snd p))"
  shows "tfi_cell (fresh cb ct cl cr nx nz) =
     Inl (e, \<lparr>NX = nx, NZ = nz, Xb = cb, Xt = ct, Xl = cl, Xr = cr,
        xi = samples nx, eta = samples nz,
        xi1 = fst (meshgrid (samples nx) (samples nz)),
        eta1 = snd (meshgrid (samples nx) (samples nz)),
        X = written fst cb ct cl cr (samples nx) (samples nz) (nodes_before (nat nz) i j)
              (replicate (nat nx) (replicate (nat nz) (Fin 0))),
        Z = written snd cb ct cl cr (samples nx) (samples nz) (nodes_before (nat nz) i j)
              (replicate (nat nx) (replicate (nat nz) (Fin 0)))\<rparr>)"
proof -
  let ?u = "\<lparr>NX = nx, NZ = nz, Xb = cb, Xt = ct, Xl = cl, Xr = cr,
        xi = samples nx, eta = samples nz,
        xi1 = fst (meshgrid (samples nx) (samples nz)),
        eta1 = snd (meshgrid (samples nx) (samples nz)),
        X = replicate (nat nx) (replicate (nat nz) (Fin 0)),
        Z = replicate (nat nx) (replicate (nat nz) (Fin 0))\<rparr>"
  let ?rest = "map (Pair i) [Suc j..<nat nz] @ List.product [Suc i..<nat nx] [0..<nat nz]"
  have inr: "\<forall>p \<in> set (nodes_before (nat nz) i j).
      fst p < length (xi ?u) \<and> snd p < length (eta ?u)
      \<and> \<not> isl (tfi_point (Xb ?u) (Xt ?u) (Xl ?u) (Xr ?u) (xi ?u ! fst p) (eta ?u ! snd p))"
  proof
    fix p assume p: "p \<in> set (nodes_before (nat nz) i j)"
    obtain a b where ab: "p = (a, b)" by (cases p)
    from p have "(a < i \<and> b < nat nz) \<or> (a = i \<and> b < j)"
      by (simp add: ab set_nodes_before)
    then have "a < nat nx" "b < nat nz" using i j by auto
    then show "fst p < length (xi ?u) \<and> snd p < length (eta ?u)
      \<and> \<not> isl (tfi_point (Xb ?u) (Xt ?u) (Xl ?u) (Xr ?u) (xi ?u ! fst p) (eta ?u ! snd p))"
      using good p by (auto simp: ab length_samples)
  qed
  have "run_nodes (nodes_before (nat nz) i j @ (i, j) # ?rest) ?u =
     Inl (e, ?u\<lparr>X := written fst (Xb ?u) (Xt ?u) (Xl ?u) (Xr ?u) (xi ?u) (eta ?u)
                       (nodes_before (nat nz) i j) (X ?u),
               Z := written snd (Xb ?u) (Xt ?u) (Xl ?u) (Xr ?u) (xi ?u) (eta ?u)
                       (nodes_before (nat nz) i j) (Z ?u)\<rparr>)"
    using i j bad
    by (intro run_nodes_raise inr) (simp_all add: length_samples shape_replicate)
  then show ?thesis
    by (simp add: cell_after_setup [OF nx nz] product_split [OF i j])
qed

lemma cell_negative:
  "nx < 0 \<Longrightarrow> tfi_cell (fresh cb ct cl cr nx nz) = Inl (ValueError, fresh cb ct cl cr nx nz)"
  "0 \<le> nx \<Longrightarrow> nz < 0 \<Longrightarrow>
     tfi_cell (fresh cb ct cl cr nx nz)
       = Inl (ValueError, (fresh cb ct cl cr nx nz)\<lparr>xi := samples nx\<rparr>)"
  by (simp_all add: tfi_cell_def tfi_setup_def fresh_def linspace_negative linspace_samples
        seq_def)

text \<open>
  Claim C4, as the code has it. The cell raises \<open>ValueError\<close> when \<open>nx\<close> or \<open>nz\<close> is
  negative, before \<open>X\<close> and \<open>Z\<close> are assigned. It raises when a curve raises at a sample
  point of a node that the loops visit; the exception is the one of the first such node in
  the order of the loops, and it leaves \<open>X\<close> and \<open>Z\<close> allocated: the points of the nodes
  visited before are stored, the other entries are zero. The cell does not check
  \<open>nx, nz \<ge> 2\<close>: for \<open>nx\<close> or \<open>nz\<close> equal to 0 or 1 and curves that always return, it returns
  a mesh of shape \<open>(nx, nz)\<close>.
\<close>

theorem validation_behaviour:
  "(nx < 0 \<longrightarrow>
      tfi_cell (fresh cb ct cl cr nx nz) = Inl (ValueError, fresh cb ct cl cr nx nz))
   \<and> (0 \<le> nx \<and> nz < 0 \<longrightarrow>
      tfi_cell (fresh cb ct cl cr nx nz)
        = Inl (ValueError, (fresh cb ct cl cr nx nz)\<lparr>xi := samples nx\<rparr>))
   \<and> (0 \<le> nx \<and> 0 \<le> nz \<and> i < nat nx \<and> j < nat nz
        \<and> (isl (cb (samples nx ! i)) \<or> isl (cb (Fin 0)) \<or> isl (cb (Fin 1))
            \<or> isl (ct (samples nx ! i)) \<or> isl (ct (Fin 0)) \<or> isl (ct (Fin 1))
            \<or> isl (cl (samples nz ! j)) \<or> isl (cr (samples nz ! j)))
      \<longrightarrow> isl (generate_mesh cb ct cl cr nx nz))
   \<and> (0 \<le> nx \<and> 0 \<le> nz \<and> i < nat nx \<and> j < nat nz
        \<and> tfi_point cb ct cl cr (samples nx ! i) (samples nz ! j) = Inl e
        \<and> list_all (\<lambda>p. \<not> isl (tfi_point cb ct cl cr (samples nx ! fst p) (samples nz ! snd p)))
             (nodes_before (nat nz) i j)
      \<longrightarrow> generate_mesh cb ct cl cr nx nz = Inl e
        \<and> raised (tfi_cell (fresh cb ct cl cr nx nz)) =
            Some (e,
              written fst cb ct cl cr (samples nx) (samples nz) (nodes_before (nat nz) i j)
                (replicate (nat nx) (replicate (nat nz) (Fin 0))),
              written snd cb ct cl cr (samples nx) (samples nz) (nodes_before (nat nz) i j)
                (replicate (nat nx) (replicate (nat nz) (Fin 0)))))
   \<and> (0 \<le> nx \<and> 0 \<le> nz \<and> (nx < 2 \<or> nz < 2) \<longrightarrow>
        (\<exists>Xm Zm.
           generate_mesh (total_curve b) (total_curve t) (total_curve l) (total_curve r) nx nz
             = Inr (Xm, Zm)
           \<and> shape Xm (nat nx) (nat nz) \<and> shape Zm (nat nx) (nat nz)))"
proof (intro conjI impI)
  assume "nx < 0"
  then show "tfi_cell (fresh cb ct cl cr nx nz) = Inl (ValueError, fresh cb ct cl cr nx nz)"
    by (rule cell_negative)
next
  assume "0 \<le> nx \<and> nz < 0"
  then show "tfi_cell (fresh cb ct cl cr nx nz)
        = Inl (ValueError, (fresh cb ct cl cr nx nz)\<lparr>xi := samples nx\<rparr>)"
    by (simp add: cell_negative)
next
  assume a: "0 \<le> nx \<and> 0 \<le> nz \<and> i < nat nx \<and> j < nat nz
        \<and> (isl (cb (samples nx ! i)) \<or> isl (cb (Fin 0)) \<or> isl (cb (Fin 1))
            \<or> isl (ct (samples nx ! i)) \<or> isl (ct (Fin 0)) \<or> isl (ct (Fin 1))
            \<or> isl (cl (samples nz ! j)) \<or> isl (cr (samples nz ! j)))"
  then have h: "0 \<le> nx" "0 \<le> nz" "i < nat nx" "j < nat nz" by simp_all
  have bad: "isl (cb (samples nx ! i)) \<or> isl (cb (Fin 0)) \<or> isl (cb (Fin 1))
            \<or> isl (ct (samples nx ! i)) \<or> isl (ct (Fin 0)) \<or> isl (ct (Fin 1))
            \<or> isl (cl (samples nz ! j)) \<or> isl (cr (samples nz ! j))"
    using a by simp
  show "isl (generate_mesh cb ct cl cr nx nz)"
    by (rule generate_mesh_raises [of nx nz i j cb ct cl cr, OF h bad])
next
  assume a: "0 \<le> nx \<and> 0 \<le> nz \<and> i < nat nx \<and> j < nat nz
        \<and> tfi_point cb ct cl cr (samples nx ! i) (samples nz ! j) = Inl e
        \<and> list_all (\<lambda>p. \<not> isl (tfi_point cb ct cl cr (samples nx ! fst p) (samples nz ! snd p)))
             (nodes_before (nat nz) i j)"
  then have h: "0 \<le> nx" "0 \<le> nz" "i < nat nx" "j < nat nz"
    "tfi_point cb ct cl cr (samples nx ! i) (samples nz ! j) = Inl e"
    by simp_all
  have good: "\<forall>p \<in> set (nodes_before (nat nz) i j).
                 \<not> isl (tfi_point cb ct cl cr (samples nx ! fst p) (samples nz ! snd p))"
    using a by (simp add: list_all_iff)
  note c = cell_raise [OF h good]
  show "generate_mesh cb ct cl cr nx nz = Inl e"
    by (simp add: generate_mesh_def c mesh_of_def)
  show "raised (tfi_cell (fresh cb ct cl cr nx nz)) =
            Some (e,
              written fst cb ct cl cr (samples nx) (samples nz) (nodes_before (nat nz) i j)
                (replicate (nat nx) (replicate (nat nz) (Fin 0))),
              written snd cb ct cl cr (samples nx) (samples nz) (nodes_before (nat nz) i j)
                (replicate (nat nx) (replicate (nat nz) (Fin 0))))"
    by (simp add: c raised_def)
next
  assume "0 \<le> nx \<and> 0 \<le> nz \<and> (nx < 2 \<or> nz < 2)"
  then have pos: "0 \<le> nx" "0 \<le> nz" by simp_all
  let ?M = "mesh_map b t l r (samples nx) (samples nz)"
  have g: "generate_mesh (total_curve b) (total_curve t) (total_curve l) (total_curve r) nx nz
             = Inr (fst ?M, snd ?M)"
    using generate_mesh_total [OF pos] by simp
  have sh: "shape (fst ?M) (nat nx) (nat nz)" "shape (snd ?M) (nat nx) (nat nz)"
    by (simp_all add: mesh_map_def shape_iff length_samples)
  show "\<exists>Xm Zm.
           generate_mesh (total_curve b) (total_curve t) (total_curve l) (total_curve r) nx nz
             = Inr (Xm, Zm)
           \<and> shape Xm (nat nx) (nat nz) \<and> shape Zm (nat nx) (nat nz)"
    by (intro exI [of _ "fst ?M"] exI [of _ "snd ?M"] conjI g sh)
qed

lemma unit_point:
  "tfi_point unit_bottom unit_top unit_left unit_right x e =
     Inr (gordon_hall (\<lambda>u. u) (\<lambda>u. u) (\<lambda>u. Fin 0) (\<lambda>u. Fin 1) x e,
          gordon_hall (\<lambda>u. Fin 0) (\<lambda>u. Fin 1) (\<lambda>u. u) (\<lambda>u. u) x e)"
  by (simp add: unit_bottom_def unit_top_def unit_left_def unit_right_def tfi_point_total
        comp_def)

lemma broken_point:
  "tfi_point broken_bottom unit_top unit_left unit_right x e =
     (if x = Fin (1 / 2) then Inl CurveError
      else tfi_point unit_bottom unit_top unit_left unit_right x e)"
  by (simp add: tfi_point_def broken_bottom_def unit_bottom_def total_curve_def bind_def)

theorem validation_behaviour_witness:
  "(- 1 :: int) < 0
   \<and> tfi_cell (fresh unit_bottom unit_top unit_left unit_right (- 1) 2)
     = Inl (ValueError, fresh unit_bottom unit_top unit_left unit_right (- 1) 2)
   \<and> (0::int) \<le> 2 \<and> (- 1 :: int) < 0
   \<and> tfi_cell (fresh unit_bottom unit_top unit_left unit_right 2 (- 1))
     = Inl (ValueError, (fresh unit_bottom unit_top unit_left unit_right 2 (- 1))
                          \<lparr>xi := [Fin 0, Fin 1]\<rparr>)
   \<and> (0::int) \<le> 3 \<and> (0::int) \<le> 2 \<and> (1::nat) < nat 3 \<and> (0::nat) < nat 2
   \<and> isl (broken_bottom (samples 3 ! 1))
   \<and> isl (generate_mesh broken_bottom unit_top unit_left unit_right 3 2)
   \<and> tfi_point broken_bottom unit_top unit_left unit_right (samples 3 ! 1) (samples 2 ! 0)
     = Inl CurveError
   \<and> list_all (\<lambda>p. \<not> isl (tfi_point broken_bottom unit_top unit_left unit_right
                              (samples 3 ! fst p) (samples 2 ! snd p)))
        (nodes_before (nat 2) 1 0)
   \<and> generate_mesh broken_bottom unit_top unit_left unit_right 3 2 = Inl CurveError
   \<and> raised (tfi_cell (fresh broken_bottom unit_top unit_left unit_right 3 2))
     = Some (CurveError, [[Fin 0, Fin 0], [Fin 0, Fin 0], [Fin 0, Fin 0]],
                         [[Fin 0, Fin 1], [Fin 0, Fin 0], [Fin 0, Fin 0]])
   \<and> (0::int) \<le> 1 \<and> (0::int) \<le> 2 \<and> (1::int) < 2
   \<and> (\<exists>Xm Zm. generate_mesh unit_bottom unit_top unit_left unit_right 1 2 = Inr (Xm, Zm)
         \<and> shape Xm (nat 1) (nat 2) \<and> shape Zm (nat 1) (nat 2))"
proof -
  have nb: "nodes_before (nat 2) 1 0 = [(0, 0), (0, 1)]"
    by (simp add: nodes_before_def numeral_2_eq_2 upt_rec)
  have bad: "isl (broken_bottom (samples 3 ! 1))"
    by (simp add: samples_three broken_bottom_def)
  have pt: "tfi_point broken_bottom unit_top unit_left unit_right (samples 3 ! 1) (samples 2 ! 0)
     = Inl CurveError"
    by (simp add: samples_three broken_point)
  have ok: "list_all (\<lambda>p. \<not> isl (tfi_point broken_bottom unit_top unit_left unit_right
                              (samples 3 ! fst p) (samples 2 ! snd p)))
        (nodes_before (nat 2) 1 0)"
    unfolding nb by (simp add: samples_three samples_two broken_point unit_point)
  have a: "tfi_cell (fresh unit_bottom unit_top unit_left unit_right (- 1) 2)
     = Inl (ValueError, fresh unit_bottom unit_top unit_left unit_right (- 1) 2)"
    using validation_behaviour [of "- 1" unit_bottom unit_top unit_left unit_right 2] by simp
  have b: "tfi_cell (fresh unit_bottom unit_top unit_left unit_right 2 (- 1))
     = Inl (ValueError, (fresh unit_bottom unit_top unit_left unit_right 2 (- 1))
                          \<lparr>xi := [Fin 0, Fin 1]\<rparr>)"
    using validation_behaviour [of 2 unit_bottom unit_top unit_left unit_right "- 1"]
    by (simp add: samples_two)
  have c: "isl (generate_mesh broken_bottom unit_top unit_left unit_right 3 2)"
    using validation_behaviour [of 3 broken_bottom unit_top unit_left unit_right 2 1 0] bad
    by simp
  have w: "written c broken_bottom unit_top unit_left unit_right (samples 3) (samples 2)
             [(0, 0), (0, 1)] (replicate (nat 3) (replicate (nat 2) (Fin 0)))
           = [[c (Fin 0, Fin 0), c (Fin 0, Fin 1)], [Fin 0, Fin 0], [Fin 0, Fin 0]]"
    for c :: "point \<Rightarrow> f64"
    by (simp add: written_def samples_three samples_two broken_point unit_point upt_rec
          numeral_2_eq_2 numeral_3_eq_3 gordon_hall_def blend_def f64_eval)
  have d: "generate_mesh broken_bottom unit_top unit_left unit_right 3 2 = Inl CurveError
   \<and> raised (tfi_cell (fresh broken_bottom unit_top unit_left unit_right 3 2))
     = Some (CurveError, [[Fin 0, Fin 0], [Fin 0, Fin 0], [Fin 0, Fin 0]],
                         [[Fin 0, Fin 1], [Fin 0, Fin 0], [Fin 0, Fin 0]])"
    using validation_behaviour [of 3 broken_bottom unit_top unit_left unit_right 2 1 0
            CurveError] pt ok
    unfolding nb w by simp
  have e: "\<exists>Xm Zm. generate_mesh unit_bottom unit_top unit_left unit_right 1 2 = Inr (Xm, Zm)
         \<and> shape Xm (nat 1) (nat 2) \<and> shape Zm (nat 1) (nat 2)"
    using validation_behaviour [of 1 _ _ _ _ 2 _ _ _ "\<lambda>x. (x, Fin 0)" "\<lambda>x. (x, Fin 1)"
            "\<lambda>e. (Fin 0, e)" "\<lambda>e. (Fin 1, e)"]
    by (simp add: unit_bottom_def unit_top_def unit_left_def unit_right_def)
  show ?thesis using a b c d e bad pt ok by simp
qed

subsection \<open>The stored values\<close>

lemma samples_last: "2 \<le> n \<Longrightarrow> samples n ! (nat n - 1) = Fin 1"
  by (simp add: samples_def linspace_def Let_def)

lemma samples_nth:
  assumes "2 \<le> n" "i < nat n - 1"
  shows "samples n ! i =
     (let dv = f64_of_int (n - 1); step = fdiv (Fin 1) dv in
      fadd (if step = Fin 0 then fmul (fdiv (f64_of_int (int i)) dv) (Fin 1)
            else fmul (f64_of_int (int i)) step) (Fin 0))"
  using assms by (simp add: samples_def linspace_def Let_def)

text \<open>
  Claim C1, as the code has it. For boundary curves that always return and
  \<open>nx, nz \<ge> 2\<close>, the samples are those of \<open>np.linspace\<close>: the last one is exactly 1, and
  sample \<open>i\<close> before it is \<open>i * step + 0\<close> with \<open>step = 1 / (nx - 1)\<close>, every operation
  rounded (\<open>(i / (nx - 1)) * 1 + 0\<close> when the step rounds to zero). The mesh holds at every
  position \<open>(i, j)\<close> the blending formula evaluated in binary64 at these samples, in the
  order of the source expression, for the \<open>x\<close> component in \<open>X\<close> and the \<open>z\<close> component in
  \<open>Z\<close>.
\<close>

theorem stored_values:
  assumes nx: "2 \<le> nx" and nz: "2 \<le> nz"
  shows "\<exists>xs es Xm Zm.
       linspace (Fin 0) (Fin 1) nx = Inr xs \<and> linspace (Fin 0) (Fin 1) nz = Inr es
     \<and> length xs = nat nx \<and> length es = nat nz
     \<and> xs ! (nat nx - 1) = Fin 1 \<and> es ! (nat nz - 1) = Fin 1
     \<and> (\<forall>i < nat nx - 1.
          xs ! i =
            (let dv = f64_of_int (nx - 1); step = fdiv (Fin 1) dv in
             fadd (if step = Fin 0 then fmul (fdiv (f64_of_int (int i)) dv) (Fin 1)
                   else fmul (f64_of_int (int i)) step) (Fin 0)))
     \<and> (\<forall>j < nat nz - 1.
          es ! j =
            (let dv = f64_of_int (nz - 1); step = fdiv (Fin 1) dv in
             fadd (if step = Fin 0 then fmul (fdiv (f64_of_int (int j)) dv) (Fin 1)
                   else fmul (f64_of_int (int j)) step) (Fin 0)))
     \<and> generate_mesh (total_curve b) (total_curve t) (total_curve l) (total_curve r) nx nz
         = Inr (Xm, Zm)
     \<and> (\<forall>i < nat nx. \<forall>j < nat nz.
          (let \<xi> = xs ! i; \<eta> = es ! j in
           Xm ! i ! j =
             fsub
               (fadd (fadd (fadd (fmul (fsub (Fin 1) \<eta>) (fst (b \<xi>))) (fmul \<eta> (fst (t \<xi>))))
                           (fmul (fsub (Fin 1) \<xi>) (fst (l \<eta>))))
                     (fmul \<xi> (fst (r \<eta>))))
               (fadd (fadd (fadd (fmul (fmul \<xi> \<eta>) (fst (t (Fin 1))))
                                 (fmul (fmul \<xi> (fsub (Fin 1) \<eta>)) (fst (b (Fin 1)))))
                           (fmul (fmul \<eta> (fsub (Fin 1) \<xi>)) (fst (t (Fin 0)))))
                     (fmul (fmul (fsub (Fin 1) \<xi>) (fsub (Fin 1) \<eta>)) (fst (b (Fin 0)))))
         \<and> Zm ! i ! j =
             fsub
               (fadd (fadd (fadd (fmul (fsub (Fin 1) \<eta>) (snd (b \<xi>))) (fmul \<eta> (snd (t \<xi>))))
                           (fmul (fsub (Fin 1) \<xi>) (snd (l \<eta>))))
                     (fmul \<xi> (snd (r \<eta>))))
               (fadd (fadd (fadd (fmul (fmul \<xi> \<eta>) (snd (t (Fin 1))))
                                 (fmul (fmul \<xi> (fsub (Fin 1) \<eta>)) (snd (b (Fin 1)))))
                           (fmul (fmul \<eta> (fsub (Fin 1) \<xi>)) (snd (t (Fin 0)))))
                     (fmul (fmul (fsub (Fin 1) \<xi>) (fsub (Fin 1) \<eta>)) (snd (b (Fin 0)))))))"
proof -
  let ?M = "mesh_map b t l r (samples nx) (samples nz)"
  have pos: "0 \<le> nx" "0 \<le> nz" using nx nz by simp_all
  have g: "generate_mesh (total_curve b) (total_curve t) (total_curve l) (total_curve r) nx nz
             = Inr (fst ?M, snd ?M)"
    using generate_mesh_total [OF pos] by simp
  have sx: "\<forall>i < nat nx - 1.
          samples nx ! i =
            (let dv = f64_of_int (nx - 1); step = fdiv (Fin 1) dv in
             fadd (if step = Fin 0 then fmul (fdiv (f64_of_int (int i)) dv) (Fin 1)
                   else fmul (f64_of_int (int i)) step) (Fin 0))"
    using samples_nth [OF nx] by blast
  have sz: "\<forall>j < nat nz - 1.
          samples nz ! j =
            (let dv = f64_of_int (nz - 1); step = fdiv (Fin 1) dv in
             fadd (if step = Fin 0 then fmul (fdiv (f64_of_int (int j)) dv) (Fin 1)
                   else fmul (f64_of_int (int j)) step) (Fin 0))"
    using samples_nth [OF nz] by blast
  have n: "\<forall>i < nat nx. \<forall>j < nat nz.
          (let \<xi> = samples nx ! i; \<eta> = samples nz ! j in
           fst ?M ! i ! j =
             fsub
               (fadd (fadd (fadd (fmul (fsub (Fin 1) \<eta>) (fst (b \<xi>))) (fmul \<eta> (fst (t \<xi>))))
                           (fmul (fsub (Fin 1) \<xi>) (fst (l \<eta>))))
                     (fmul \<xi> (fst (r \<eta>))))
               (fadd (fadd (fadd (fmul (fmul \<xi> \<eta>) (fst (t (Fin 1))))
                                 (fmul (fmul \<xi> (fsub (Fin 1) \<eta>)) (fst (b (Fin 1)))))
                           (fmul (fmul \<eta> (fsub (Fin 1) \<xi>)) (fst (t (Fin 0)))))
                     (fmul (fmul (fsub (Fin 1) \<xi>) (fsub (Fin 1) \<eta>)) (fst (b (Fin 0)))))
         \<and> snd ?M ! i ! j =
             fsub
               (fadd (fadd (fadd (fmul (fsub (Fin 1) \<eta>) (snd (b \<xi>))) (fmul \<eta> (snd (t \<xi>))))
                           (fmul (fsub (Fin 1) \<xi>) (snd (l \<eta>))))
                     (fmul \<xi> (snd (r \<eta>))))
               (fadd (fadd (fadd (fmul (fmul \<xi> \<eta>) (snd (t (Fin 1))))
                                 (fmul (fmul \<xi> (fsub (Fin 1) \<eta>)) (snd (b (Fin 1)))))
                           (fmul (fmul \<eta> (fsub (Fin 1) \<xi>)) (snd (t (Fin 0)))))
                     (fmul (fmul (fsub (Fin 1) \<xi>) (fsub (Fin 1) \<eta>)) (snd (b (Fin 0))))))"
    by (simp add: mesh_map_nth length_samples gordon_hall_def blend_def Let_def)
  show ?thesis
    by (intro exI [of _ "samples nx"] exI [of _ "samples nz"] exI [of _ "fst ?M"]
          exI [of _ "snd ?M"] conjI linspace_samples pos length_samples samples_last nx nz
          sx sz g n)
qed

theorem stored_values_witness:
  "(2::int) \<le> 11 \<and> (2::int) \<le> 2
   \<and> (\<exists>xs es Xm Zm.
        linspace (Fin 0) (Fin 1) 11 = Inr xs \<and> linspace (Fin 0) (Fin 1) 2 = Inr es
      \<and> xs ! 3 = Fin (5404319552844596 / 18014398509481984)
      \<and> xs ! 10 = Fin 1 \<and> es ! 0 = Fin 0 \<and> es ! 1 = Fin 1
      \<and> generate_mesh unit_bottom unit_top unit_left unit_right 11 2 = Inr (Xm, Zm)
      \<and> Xm ! 3 ! 1 = Fin (5404319552844596 / 18014398509481984)
      \<and> Zm ! 3 ! 1 = Fin 1)"
proof -
  from stored_values [of 11 2 "\<lambda>x. (x, Fin 0)" "\<lambda>x. (x, Fin 1)" "\<lambda>e. (Fin 0, e)"
         "\<lambda>e. (Fin 1, e)"]
  obtain xs es Xm Zm where
    l: "linspace (Fin 0) (Fin 1) 11 = Inr xs" "linspace (Fin 0) (Fin 1) 2 = Inr es"
    and e: "xs ! (nat 11 - 1) = Fin 1" "es ! (nat 2 - 1) = Fin 1"
    and sx: "\<forall>i < nat 11 - 1.
          xs ! i =
            (let dv = f64_of_int (11 - 1); step = fdiv (Fin 1) dv in
             fadd (if step = Fin 0 then fmul (fdiv (f64_of_int (int i)) dv) (Fin 1)
                   else fmul (f64_of_int (int i)) step) (Fin 0))"
    and sz: "\<forall>j < nat 2 - 1.
          es ! j =
            (let dv = f64_of_int (2 - 1); step = fdiv (Fin 1) dv in
             fadd (if step = Fin 0 then fmul (fdiv (f64_of_int (int j)) dv) (Fin 1)
                   else fmul (f64_of_int (int j)) step) (Fin 0))"
    and g: "generate_mesh unit_bottom unit_top unit_left unit_right 11 2 = Inr (Xm, Zm)"
    and n: "\<forall>i < nat 11. \<forall>j < nat 2.
          (let \<xi> = xs ! i; \<eta> = es ! j in
           Xm ! i ! j =
             fsub
               (fadd (fadd (fadd (fmul (fsub (Fin 1) \<eta>) \<xi>) (fmul \<eta> \<xi>))
                           (fmul (fsub (Fin 1) \<xi>) (Fin 0)))
                     (fmul \<xi> (Fin 1)))
               (fadd (fadd (fadd (fmul (fmul \<xi> \<eta>) (Fin 1))
                                 (fmul (fmul \<xi> (fsub (Fin 1) \<eta>)) (Fin 1)))
                           (fmul (fmul \<eta> (fsub (Fin 1) \<xi>)) (Fin 0)))
                     (fmul (fmul (fsub (Fin 1) \<xi>) (fsub (Fin 1) \<eta>)) (Fin 0)))
         \<and> Zm ! i ! j =
             fsub
               (fadd (fadd (fadd (fmul (fsub (Fin 1) \<eta>) (Fin 0)) (fmul \<eta> (Fin 1)))
                           (fmul (fsub (Fin 1) \<xi>) \<eta>))
                     (fmul \<xi> \<eta>))
               (fadd (fadd (fadd (fmul (fmul \<xi> \<eta>) (Fin 1))
                                 (fmul (fmul \<xi> (fsub (Fin 1) \<eta>)) (Fin 0)))
                           (fmul (fmul \<eta> (fsub (Fin 1) \<xi>)) (Fin 1)))
                     (fmul (fmul (fsub (Fin 1) \<xi>) (fsub (Fin 1) \<eta>)) (Fin 0))))"
    unfolding unit_bottom_def unit_top_def unit_left_def unit_right_def by auto
  have x3: "xs ! 3 = Fin (5404319552844596 / 18014398509481984)"
    using sx [rule_format, of 3] by (simp add: f64_eval)
  have x10: "xs ! 10 = Fin 1" using e by simp
  have e0: "es ! 0 = Fin 0" using sz [rule_format, of 0] by (simp add: f64_eval)
  have e1: "es ! 1 = Fin 1" using e by simp
  have e1': "es ! Suc 0 = Fin 1" using e by simp
  have "Xm ! 3 ! 1 = Fin (5404319552844596 / 18014398509481984) \<and> Zm ! 3 ! 1 = Fin 1"
    using n [rule_format, of 3 1] by (simp add: x3 e1' Let_def f64_eval)
  with l g x3 x10 e0 e1 show ?thesis by auto
qed

text \<open>
  Claim C1 as stated fails: the samples are not \<open>i / (nx - 1)\<close>. For \<open>nx = 11\<close> the sample
  \<open>\<xi>\<^sub>3\<close>, which the unit-square curves store at \<open>X[3,0]\<close>, is 0.30000000000000004, one
  float above 3/10 rounded.
\<close>

theorem sampling_counterexample:
  "fst (projr (generate_mesh unit_bottom unit_top unit_left unit_right 11 2)) ! 3 ! 0
     = Fin (5404319552844596 / 18014398509481984)
   \<and> fdiv (Fin 3) (Fin 10) = Fin (5404319552844595 / 18014398509481984)"
proof
  have x3: "samples 11 ! 3 = Fin (5404319552844596 / 18014398509481984)"
    using samples_nth [of 11 3] by (simp add: f64_eval)
  have e0: "samples 2 ! 0 = Fin 0" by (simp add: samples_two)
  have "generate_mesh unit_bottom unit_top unit_left unit_right 11 2
          = Inr (mesh_map (\<lambda>x. (x, Fin 0)) (\<lambda>x. (x, Fin 1)) (\<lambda>e. (Fin 0, e)) (\<lambda>e. (Fin 1, e))
                   (samples 11) (samples 2))"
    unfolding unit_bottom_def unit_top_def unit_left_def unit_right_def
    by (rule generate_mesh_total) simp_all
  then show "fst (projr (generate_mesh unit_bottom unit_top unit_left unit_right 11 2)) ! 3 ! 0
     = Fin (5404319552844596 / 18014398509481984)"
    by (simp add: mesh_map_nth length_samples x3 e0 gordon_hall_def blend_def f64_eval)
  show "fdiv (Fin 3) (Fin 10) = Fin (5404319552844595 / 18014398509481984)"
    by (simp add: f64_eval)
qed

subsection \<open>Powers of two and the binary exponent\<close>

lemma pow2_pos [simp]: "0 < pow2 k"
  by (simp add: pow2_def)

lemma pow2_add: "pow2 (a + b) = pow2 a * pow2 b"
  unfolding pow2_def by (rule power_int_add) simp

lemma pow2_diff: "pow2 (a - b) = pow2 a / pow2 b"
  unfolding pow2_def by (rule power_int_diff) simp

lemma pow2_0 [simp]: "pow2 0 = 1"
  by (simp add: pow2_def)

lemma pow2_1 [simp]: "pow2 1 = 2"
  by (simp add: pow2_def)

lemma pow2_mono: "a \<le> b \<Longrightarrow> pow2 a \<le> pow2 b"
  unfolding pow2_def by (rule power_int_increasing) simp_all

lemma pow2_strict_mono: "a < b \<Longrightarrow> pow2 a < pow2 b"
  unfolding pow2_def by (rule power_int_strict_increasing) simp_all

lemma pow2_less_iff [simp]: "pow2 a < pow2 b \<longleftrightarrow> a < b"
proof
  assume l: "pow2 a < pow2 b"
  show "a < b"
  proof (rule ccontr)
    assume "\<not> a < b"
    then have "pow2 b \<le> pow2 a" by (intro pow2_mono) simp
    with l show False by simp
  qed
qed (rule pow2_strict_mono)

lemma pow2_le_iff [simp]: "pow2 a \<le> pow2 b \<longleftrightarrow> a \<le> b"
proof
  assume l: "pow2 a \<le> pow2 b"
  show "a \<le> b"
  proof (rule ccontr)
    assume "\<not> a \<le> b"
    then have "pow2 b < pow2 a" by (intro pow2_strict_mono) simp
    with l show False by simp
  qed
qed (rule pow2_mono)

lemma pow2_nat: "0 \<le> k \<Longrightarrow> pow2 k = of_int (2 ^ nat k)"
  by (simp add: pow2_def power_int_def)

lemma pow2_neg: "pow2 (- k) = 1 / pow2 k"
  by (simp add: pow2_def power_int_minus_divide)

lemma expo_bounds:
  assumes "a \<noteq> 0"
  shows "pow2 (expo a) \<le> \<bar>a\<bar>" and "\<bar>a\<bar> < pow2 (expo a + 1)"
proof -
  have "pow2 (expo a) \<le> \<bar>a\<bar> \<and> \<bar>a\<bar> < pow2 (expo a + 1)"
  proof (cases "1 \<le> \<bar>a\<bar>")
    case True
    define n where "n = \<lfloor>\<bar>a\<bar>\<rfloor>"
    have n1: "1 \<le> n" using True by (simp add: n_def le_floor_iff)
    then have n0: "0 < n" by simp
    from bitlen_bounds [OF n0]
    have b: "2 ^ nat (bitlen n - 1) \<le> n" "n < 2 ^ nat (bitlen n)" by simp_all
    have bl: "1 \<le> bitlen n" using n0 by (simp add: bitlen_alt_def)
    have e: "expo a = bitlen n - 1" using True by (simp add: expo_def n_def)
    have "pow2 (bitlen n - 1) = of_int (2 ^ nat (bitlen n - 1))"
      using bl by (intro pow2_nat) simp
    also have "\<dots> \<le> of_int n" using b(1) by (simp only: of_int_le_iff)
    also have "\<dots> \<le> \<bar>a\<bar>" by (simp add: n_def)
    finally have lo: "pow2 (expo a) \<le> \<bar>a\<bar>" by (simp add: e)
    have "\<bar>a\<bar> < of_int (n + 1)" by (simp add: n_def) linarith
    also have "of_int (n + 1) \<le> (of_int (2 ^ nat (bitlen n)) :: rat)"
    proof -
      have "n + 1 \<le> 2 ^ nat (bitlen n)" using b(2) by simp
      then show ?thesis by (simp only: of_int_le_iff)
    qed
    also have "\<dots> = pow2 (bitlen n)" using bl by (intro pow2_nat [symmetric]) simp
    finally have "\<bar>a\<bar> < pow2 (expo a + 1)" by (simp add: e)
    with lo show ?thesis by simp
  next
    case False
    define y where "y = 1 / \<bar>a\<bar>"
    define c where "c = \<lceil>y\<rceil>"
    have apos: "0 < \<bar>a\<bar>" using assms by simp
    have y1: "1 < y" using False apos by (simp add: y_def field_simps)
    have c2: "2 \<le> c" using y1 by (simp add: c_def le_ceiling_iff)
    then have c0: "0 < c - 1" by simp
    from bitlen_bounds [OF c0]
    have b: "2 ^ nat (bitlen (c - 1) - 1) \<le> c - 1" "c - 1 < 2 ^ nat (bitlen (c - 1))"
      by simp_all
    have bl: "1 \<le> bitlen (c - 1)" using c0 by (simp add: bitlen_alt_def)
    have e: "expo a = - bitlen (c - 1)" using False by (simp add: expo_def c_def y_def)
    have "y \<le> of_int c" by (simp add: c_def)
    also have "of_int c \<le> (of_int (2 ^ nat (bitlen (c - 1))) :: rat)"
    proof -
      have "c \<le> 2 ^ nat (bitlen (c - 1))" using b(2) by simp
      then show ?thesis by (simp only: of_int_le_iff)
    qed
    also have "\<dots> = pow2 (bitlen (c - 1))" using bl by (intro pow2_nat [symmetric]) simp
    finally have "y \<le> pow2 (bitlen (c - 1))" .
    then have "1 / pow2 (bitlen (c - 1)) \<le> \<bar>a\<bar>"
      using apos by (simp add: y_def field_simps)
    then have lo: "pow2 (expo a) \<le> \<bar>a\<bar>" by (simp add: e pow2_neg)
    have "pow2 (bitlen (c - 1) - 1) = of_int (2 ^ nat (bitlen (c - 1) - 1))"
      using bl by (intro pow2_nat) simp
    also have "\<dots> \<le> of_int (c - 1)" using b(1) by (simp only: of_int_le_iff)
    also have "of_int (c - 1) < y" by (simp add: c_def) linarith
    finally have "pow2 (bitlen (c - 1) - 1) < y" .
    then have "\<bar>a\<bar> < 1 / pow2 (bitlen (c - 1) - 1)"
      using apos by (simp add: y_def field_simps)
    also have "1 / pow2 (bitlen (c - 1) - 1) = pow2 (- (bitlen (c - 1) - 1))"
      by (rule pow2_neg [symmetric])
    finally have "\<bar>a\<bar> < pow2 (expo a + 1)" by (simp add: e)
    with lo show ?thesis by simp
  qed
  then show "pow2 (expo a) \<le> \<bar>a\<bar>" and "\<bar>a\<bar> < pow2 (expo a + 1)" by simp_all
qed

lemma expo_unique:
  assumes "pow2 e \<le> \<bar>a\<bar>" "\<bar>a\<bar> < pow2 (e + 1)"
  shows "expo a = e"
proof -
  have "0 < \<bar>a\<bar>" by (rule less_le_trans [OF pow2_pos assms(1)])
  then have a0: "a \<noteq> 0" by simp
  note b = expo_bounds [OF a0]
  have "pow2 e < pow2 (expo a + 1)" by (rule le_less_trans [OF assms(1) b(2)])
  then have 1: "e \<le> expo a" by simp
  have "pow2 (expo a) < pow2 (e + 1)" by (rule le_less_trans [OF b(1) assms(2)])
  then have 2: "expo a \<le> e" by simp
  from 1 2 show ?thesis by simp
qed

lemma expo_less: "a \<noteq> 0 \<Longrightarrow> \<bar>a\<bar> < pow2 k \<Longrightarrow> expo a < k"
proof -
  assume a: "a \<noteq> 0" "\<bar>a\<bar> < pow2 k"
  have "pow2 (expo a) < pow2 k" by (rule le_less_trans [OF expo_bounds(1) [OF a(1)] a(2)])
  then show ?thesis by simp
qed

subsection \<open>Rounding\<close>

lemma quantum_pos [simp]: "0 < quantum a"
  by (simp add: quantum_def)

lemma quantum_nonneg [simp]: "0 \<le> quantum a"
  using quantum_pos [of a] by (rule less_imp_le)

lemma pow2_nonneg [simp]: "0 \<le> pow2 k"
  using pow2_pos [of k] by (rule less_imp_le)

lemma quantum_nonzero [simp]: "quantum a \<noteq> 0"
  using quantum_pos [of a] by (rule less_imp_neq [symmetric])

lemma rne_of_int [simp]: "rne (of_int k) = k"
  by (simp add: rne_def)

lemma rne_close: "\<bar>of_int (rne m) - m\<bar> \<le> 1 / 2"
proof -
  have "of_int \<lfloor>m\<rfloor> \<le> m" "m < of_int \<lfloor>m\<rfloor> + 1" by linarith+
  then show ?thesis by (auto simp: rne_def Let_def abs_le_iff)
qed

lemma rne_le: "m \<le> of_int N \<Longrightarrow> rne m \<le> N"
proof -
  assume a: "m \<le> of_int N"
  show ?thesis
  proof (cases "m = of_int N")
    case True
    then show ?thesis by simp
  next
    case False
    with a have "m < of_int N" by simp
    then have "\<lfloor>m\<rfloor> < N" by (simp add: floor_less_iff)
    then show ?thesis by (auto simp: rne_def Let_def)
  qed
qed

lemma rne_ge: "of_int N \<le> m \<Longrightarrow> N \<le> rne m"
proof -
  assume "of_int N \<le> m"
  then have "N \<le> \<lfloor>m\<rfloor>" by (simp add: le_floor_iff)
  then show ?thesis by (auto simp: rne_def Let_def)
qed

lemma round64_rep: "rep64 a \<Longrightarrow> round64 a = Fin a"
proof (cases "a = 0")
  case True
  then show ?thesis by simp
next
  case False
  assume "rep64 a"
  with False have b: "\<bar>a\<bar> < pow2 1024" and i: "of_int \<lfloor>a / quantum a\<rfloor> = a / quantum a"
    by (simp_all add: rep64_def)
  have r: "rne (a / quantum a) = \<lfloor>a / quantum a\<rfloor>"
    using rne_of_int [of "\<lfloor>a / quantum a\<rfloor>"] by (simp only: i)
  have "of_int (rne (a / quantum a)) * quantum a = a / quantum a * quantum a"
    by (simp only: r i)
  then have "of_int (rne (a / quantum a)) * quantum a = a"
    by simp
  then show ?thesis using False b by (simp add: round64_def Let_def abs_less_iff)
qed

lemma round64_cases:
  assumes "a \<noteq> 0"
  obtains (fin) "round64 a = Fin (of_int (rne (a / quantum a)) * quantum a)"
      "\<bar>of_int (rne (a / quantum a)) * quantum a\<bar> < pow2 1024"
    | (pinf) "round64 a = PInf" "pow2 1024 \<le> of_int (rne (a / quantum a)) * quantum a"
    | (ninf) "round64 a = NInf" "of_int (rne (a / quantum a)) * quantum a \<le> - pow2 1024"
  using assms that unfolding round64_def Let_def
  by (cases "pow2 1024 \<le> of_int (rne (a / quantum a)) * quantum a";
      cases "of_int (rne (a / quantum a)) * quantum a \<le> - pow2 1024")
     (auto simp: abs_less_iff)

lemma round64_error:
  assumes "round64 a = Fin c"
  shows "\<bar>c - a\<bar> \<le> quantum a / 2"
proof (cases "a = 0")
  case True
  then show ?thesis using assms by simp
next
  case False
  let ?q = "quantum a"
  let ?n = "rne (a / ?q)"
  from assms False have c: "c = of_int ?n * ?q"
    by (auto simp: round64_def Let_def split: if_splits)
  have "c - a = (of_int ?n - a / ?q) * ?q"
    by (simp add: c left_diff_distrib)
  then have "\<bar>c - a\<bar> = \<bar>of_int ?n - a / ?q\<bar> * ?q"
    by (simp only: abs_mult) simp
  also have "\<dots> \<le> 1 / 2 * ?q"
    by (intro mult_right_mono rne_close) simp
  finally show ?thesis by simp
qed

lemma quantum_le:
  assumes "a \<noteq> 0"
  shows "quantum a \<le> max (\<bar>a\<bar> * pow2 (- 52)) (pow2 (- 1074))"
proof (cases "- 1022 \<le> expo a")
  case True
  then have "quantum a = pow2 (expo a) * pow2 (- 52)"
    using pow2_add [of "expo a" "- 52"] by (simp add: quantum_def max_def)
  also have "\<dots> \<le> \<bar>a\<bar> * pow2 (- 52)"
    by (intro mult_right_mono expo_bounds(1) [OF assms]) simp
  finally show ?thesis by simp
next
  case False
  then have "quantum a = pow2 (- 1074)" by (simp add: quantum_def max_def)
  then show ?thesis by simp
qed

lemma pow2_nonzero [simp]: "pow2 k \<noteq> 0"
  using pow2_pos [of k] by (simp only: less_le) simp

lemma quantum_exponent: "quantum a = pow2 (max (expo a) (- 1022) - 52)"
  by (simp add: quantum_def)

lemma rep64_multiple:
  assumes "c = of_int n * pow2 k" "\<bar>c\<bar> < pow2 1024" "- 1074 \<le> k" "\<bar>n\<bar> \<le> 2 ^ 53"
  shows "rep64 c"
proof (cases "c = 0")
  case True
  then show ?thesis by (simp add: rep64_def)
next
  case False
  then have n0: "n \<noteq> 0" using assms(1) by auto
  have cabs: "\<bar>c\<bar> = of_int \<bar>n\<bar> * pow2 k" by (simp add: assms(1) abs_mult)
  have p53: "pow2 53 = of_int (2 ^ 53)" by (simp add: pow2_def)
  have int: "of_int \<lfloor>c / quantum c\<rfloor> = c / quantum c"
  proof (cases "\<bar>n\<bar> = 2 ^ 53")
    case True
    then have "\<bar>c\<bar> = pow2 53 * pow2 k" by (simp only: cabs p53)
    then have ck: "\<bar>c\<bar> = pow2 (k + 53)" by (simp add: pow2_add mult.commute)
    have "expo c = k + 53"
      by (rule expo_unique) (simp_all add: ck)
    then have "max (expo c) (- 1022) - 52 = k + 1" using assms(3) by simp
    then have "quantum c = pow2 (k + 1)" by (simp only: quantum_exponent)
    then have q: "quantum c = pow2 k * 2" by (simp add: pow2_add)
    have "even \<bar>n\<bar>" by (simp only: True) simp
    then have "even n" by simp
    then obtain h where h: "n = 2 * h" by (auto elim: evenE)
    have "c = of_int h * (pow2 k * 2)" by (simp add: assms(1) h)
    then have "c / quantum c = of_int h" unfolding q by simp
    then show ?thesis by simp
  next
    case False
    then have "\<bar>n\<bar> < 2 ^ 53" using assms(4) by simp
    then have "(of_int \<bar>n\<bar> :: rat) < of_int (2 ^ 53)" by (simp only: of_int_less_iff)
    then have "\<bar>c\<bar> < pow2 53 * pow2 k"
      unfolding cabs p53 by (intro mult_strict_right_mono) simp_all
    then have "\<bar>c\<bar> < pow2 (k + 53)" by (simp add: pow2_add mult.commute)
    from expo_less [OF \<open>c \<noteq> 0\<close> this] have e: "expo c < k + 53" .
    define k' where "k' = max (expo c) (- 1022) - 52"
    have kk: "k' \<le> k" using e assms(3) by (simp add: k'_def max_def)
    have q: "quantum c = pow2 k'" by (simp add: quantum_def k'_def)
    have "pow2 k / pow2 k' = pow2 (k - k')" by (simp add: pow2_diff)
    also have "\<dots> = of_int (2 ^ nat (k - k'))" using kk by (intro pow2_nat) simp
    finally have r: "pow2 k = of_int (2 ^ nat (k - k')) * pow2 k'" by (simp add: field_simps)
    have "c = of_int (n * 2 ^ nat (k - k')) * pow2 k'"
      unfolding assms(1) by (subst r) simp
    then have "c / quantum c = of_int (n * 2 ^ nat (k - k'))" unfolding q by simp
    then show ?thesis by simp
  qed
  show ?thesis using assms(2) int by (simp add: rep64_def)
qed

lemma rne_abs_le:
  assumes "\<bar>m\<bar> < of_int N"
  shows "\<bar>rne m\<bar> \<le> N"
proof -
  have "m \<le> of_int N" "of_int (- N) \<le> m" using assms by (simp_all add: abs_less_iff)
  then have "rne m \<le> N" "- N \<le> rne m" by (auto intro: rne_le rne_ge)
  then show ?thesis by (simp add: abs_le_iff)
qed

lemma rne_quantum_bound:
  assumes "a \<noteq> 0"
  shows "\<bar>rne (a / quantum a)\<bar> \<le> 2 ^ 53"
proof -
  define k where "k = max (expo a) (- 1022) - 52"
  have "\<bar>a\<bar> < pow2 (expo a + 1)" by (rule expo_bounds(2) [OF assms])
  also have "\<dots> \<le> pow2 (k + 53)" by (simp add: k_def)
  also have "\<dots> = pow2 53 * pow2 k" by (simp add: pow2_add mult.commute)
  finally have "\<bar>a\<bar> / pow2 k < pow2 53" by (simp add: field_simps)
  then have "\<bar>a / quantum a\<bar> < of_int (2 ^ 53)"
    by (simp add: quantum_def k_def pow2_def [of 53])
  then show ?thesis by (rule rne_abs_le)
qed

lemma round64_idem:
  assumes "round64 a = Fin c"
  shows "rep64 c"
proof (cases "a = 0")
  case True
  then show ?thesis using assms by (simp add: rep64_def)
next
  case False
  then show ?thesis
  proof (cases a rule: round64_cases)
    case fin
    with assms have c: "c = of_int (rne (a / quantum a)) * pow2 (max (expo a) (- 1022) - 52)"
      by (simp add: quantum_def)
    show ?thesis
    proof (rule rep64_multiple [OF c])
      show "\<bar>c\<bar> < pow2 1024" using fin assms by simp
      show "- 1074 \<le> max (expo a) (- 1022) - 52" by simp
      show "\<bar>rne (a / quantum a)\<bar> \<le> 2 ^ 53" by (rule rne_quantum_bound [OF False])
    qed
  next
    case pinf
    with assms show ?thesis by simp
  next
    case ninf
    with assms show ?thesis by simp
  qed
qed

subsection \<open>Exact operations\<close>

lemma rep64_0 [simp]: "rep64 0"
  by (simp add: rep64_def)

lemma rep64_1 [simp]: "rep64 1"
  using round64_idem [OF round64_1] .

lemma round64_never_NaN [simp]: "round64 a \<noteq> NaN"
  by (simp add: round64_def Let_def)

lemma rne_minus: "rne (- m) = - rne m"
proof (cases "m = of_int \<lfloor>m\<rfloor>")
  case True
  then obtain n where "m = of_int n" ..
  then show ?thesis by (simp del: of_int_minus add: of_int_minus [symmetric])
next
  case False
  then have c: "\<lceil>m\<rceil> = \<lfloor>m\<rfloor> + 1" by (simp add: ceiling_altdef)
  have f: "\<lfloor>- m\<rfloor> = - \<lfloor>m\<rfloor> - 1" by (simp add: floor_minus c)
  have "of_int \<lfloor>m\<rfloor> \<le> m" "m < of_int \<lfloor>m\<rfloor> + 1" by linarith+
  then show ?thesis using False by (auto simp: rne_def Let_def f)
qed

lemma expo_minus [simp]: "expo (- a) = expo a"
  by (simp add: expo_def)

lemma quantum_minus [simp]: "quantum (- a) = quantum a"
  by (simp add: quantum_def)

lemma pow2_le_both: "pow2 k \<le> x \<Longrightarrow> pow2 k \<le> - x \<Longrightarrow> False"
proof -
  assume a: "pow2 k \<le> x" "pow2 k \<le> - x"
  have "0 < x" "0 < - x" by (rule less_le_trans [OF pow2_pos a(1)], rule less_le_trans [OF pow2_pos a(2)])
  then show False by simp
qed

lemma round64_minus: "round64 (- a) = fneg (round64 a)"
  by (auto simp: round64_def Let_def rne_minus dest: pow2_le_both)

lemma rep64_minus [simp]: "rep64 (- a) = rep64 a"
proof -
  have "rep64 b \<Longrightarrow> rep64 (- b)" for b
  proof -
    assume "rep64 b"
    then have "round64 b = Fin b" by (rule round64_rep)
    then have "round64 (- b) = Fin (- b)" by (simp add: round64_minus)
    then show "rep64 (- b)" by (rule round64_idem)
  qed
  from this [of a] this [of "- a"] show ?thesis by auto
qed

lemma fadd_zero_right: "rep64 a \<Longrightarrow> fadd (Fin a) (Fin 0) = Fin a"
  by (simp add: round64_rep)

lemma fadd_zero_left: "rep64 a \<Longrightarrow> fadd (Fin 0) (Fin a) = Fin a"
  by (simp add: round64_rep)

lemma fmul_one_left: "rep64 a \<Longrightarrow> fmul (Fin 1) (Fin a) = Fin a"
  by (simp add: round64_rep)

lemma fmul_zero_left: "fmul (Fin 0) (Fin a) = Fin 0"
  by simp

lemma fadd_round_zero: "fadd (round64 a) (Fin 0) = round64 a"
proof (cases "round64 a")
  case (Fin c)
  then have "rep64 c" by (rule round64_idem)
  then show ?thesis by (simp add: Fin round64_rep)
qed simp_all

lemma rne_abs_le_eq:
  assumes "\<bar>m\<bar> \<le> of_int N"
  shows "\<bar>rne m\<bar> \<le> N"
proof -
  have "m \<le> of_int N" "of_int (- N) \<le> m" using assms by (simp_all add: abs_le_iff)
  then have "rne m \<le> N" "- N \<le> rne m" by (auto intro: rne_le rne_ge)
  then show ?thesis by (simp add: abs_le_iff)
qed

lemma round64_bound:
  assumes "\<bar>a\<bar> \<le> pow2 j" "- 1022 \<le> j" "j \<le> 1023"
  obtains v where "round64 a = Fin v" "\<bar>v\<bar> \<le> pow2 j" "\<bar>v - a\<bar> \<le> pow2 (j - 53)"
proof (cases "a = 0")
  case True
  show ?thesis by (rule that [of 0]) (simp_all add: True)
next
  case False
  define k where "k = max (expo a) (- 1022) - 52"
  define n where "n = rne (a / quantum a)"
  have q: "quantum a = pow2 k" by (simp add: quantum_def k_def)
  have "pow2 (expo a) \<le> pow2 j" by (rule order_trans [OF expo_bounds(1) [OF False] assms(1)])
  then have e: "expo a \<le> j" by simp
  then have kj: "k \<le> j - 52" using assms(2) by (simp add: k_def)
  have "pow2 j / pow2 k = pow2 (j - k)" by (simp add: pow2_diff)
  also have "\<dots> = of_int (2 ^ nat (j - k))" using kj by (intro pow2_nat) simp
  finally have pj: "pow2 j = of_int (2 ^ nat (j - k)) * pow2 k" by (simp add: field_simps)
  have "\<bar>a\<bar> / pow2 k \<le> pow2 j / pow2 k" using assms(1) by (simp add: divide_right_mono)
  then have "\<bar>a / quantum a\<bar> \<le> of_int (2 ^ nat (j - k))" by (simp add: q pj)
  then have "\<bar>n\<bar> \<le> 2 ^ nat (j - k)" unfolding n_def by (rule rne_abs_le_eq)
  then have "(of_int \<bar>n\<bar> :: rat) \<le> of_int (2 ^ nat (j - k))" by (simp only: of_int_le_iff)
  then have "of_int \<bar>n\<bar> * pow2 k \<le> of_int (2 ^ nat (j - k)) * pow2 k"
    by (intro mult_right_mono) simp_all
  moreover have "\<bar>of_int n * pow2 k\<bar> = of_int \<bar>n\<bar> * pow2 k" by (simp add: abs_mult)
  ultimately have vb: "\<bar>of_int n * pow2 k\<bar> \<le> pow2 j" by (simp only: pj [symmetric])
  have "pow2 j < pow2 1024" using assms(3) by simp
  with vb have "\<bar>of_int n * pow2 k\<bar> < pow2 1024" by (rule le_less_trans)
  with False have r: "round64 a = Fin (of_int n * pow2 k)"
    by (cases a rule: round64_cases) (simp_all add: n_def q abs_less_iff)
  have "\<bar>of_int n * pow2 k - a\<bar> \<le> quantum a / 2" by (rule round64_error [OF r])
  also have "\<dots> = pow2 (k - 1)" by (simp add: q pow2_diff)
  also have "\<dots> \<le> pow2 (j - 53)" using kj by simp
  finally show ?thesis using r vb by (intro that)
qed

lemma round64_nonneg:
  assumes "0 \<le> a" "round64 a = Fin v"
  shows "0 \<le> v"
proof (cases "a = 0")
  case True
  then show ?thesis using assms by simp
next
  case False
  have "(of_int 0 :: rat) \<le> a / quantum a" using assms(1) by simp
  then have "0 \<le> rne (a / quantum a)" by (rule rne_ge)
  then have "(0 :: rat) \<le> of_int (rne (a / quantum a)) * quantum a" by simp
  with False assms(2) show ?thesis by (cases a rule: round64_cases) simp_all
qed

lemma rep64_decompose:
  assumes "rep64 a"
  obtains n k where "a = of_int n * pow2 k" "- 1074 \<le> k" "\<bar>n\<bar> \<le> 2 ^ 53"
proof (cases "a = 0")
  case True
  show ?thesis by (rule that [of 0 0]) (simp_all add: True)
next
  case False
  from assms have "round64 a = Fin a" by (rule round64_rep)
  with False have "a = of_int (rne (a / quantum a)) * pow2 (max (expo a) (- 1022) - 52)"
    by (cases a rule: round64_cases) (simp_all add: quantum_def)
  then show ?thesis
    by (rule that) (simp, rule rne_quantum_bound [OF False])
qed

lemma rep64_double:
  assumes "rep64 a" "\<bar>a\<bar> < pow2 1023"
  shows "rep64 (2 * a)"
proof -
  from assms(1) obtain n k where a: "a = of_int n * pow2 k" "- 1074 \<le> k" "\<bar>n\<bar> \<le> 2 ^ 53"
    by (rule rep64_decompose)
  have "2 * a = of_int n * pow2 (k + 1)" by (simp add: a(1) pow2_add)
  moreover have "\<bar>2 * a\<bar> < pow2 1024"
    using assms(2) pow2_add [of 1023 1] by (simp add: abs_mult)
  ultimately show ?thesis using a(2,3) by (intro rep64_multiple [of _ n "k + 1"]) simp_all
qed

lemma fadd_self: "rep64 a \<Longrightarrow> \<bar>a\<bar> < pow2 1023 \<Longrightarrow> fadd (Fin a) (Fin a) = Fin (2 * a)"
  using round64_rep [OF rep64_double] by simp

subsection \<open>The corners\<close>

lemma round64_ge_one:
  assumes "1 \<le> a" "round64 a = Fin v"
  shows "1 \<le> v"
proof -
  have a0: "a \<noteq> 0" "\<bar>a\<bar> = a" using assms(1) by simp_all
  have "pow2 0 \<le> \<bar>a\<bar>" using assms(1) by (simp add: pow2_0)
  then have "pow2 0 < pow2 (expo a + 1)" using expo_bounds(2) [OF a0(1)] by (rule le_less_trans)
  then have "0 < expo a + 1" by (simp only: pow2_less_iff)
  then have e: "0 \<le> expo a" by simp
  then have q: "quantum a = pow2 (expo a - 52)" by (simp add: quantum_def max_def)
  have "pow2 (expo a) / pow2 (expo a - 52) = pow2 52" by (simp add: pow2_diff)
  also have "\<dots> = of_int (2 ^ 52)" by (simp add: pow2_def)
  finally have p: "pow2 (expo a) = of_int (2 ^ 52) * quantum a" by (simp add: q field_simps)
  have "pow2 (expo a) / quantum a \<le> a / quantum a"
    using expo_bounds(1) [OF a0(1)] by (simp add: a0(2) divide_right_mono)
  then have "of_int (2 ^ 52) \<le> a / quantum a" by (simp add: p)
  then have "2 ^ 52 \<le> rne (a / quantum a)" by (rule rne_ge)
  then have "(of_int (2 ^ 52) :: rat) \<le> of_int (rne (a / quantum a))" by (simp only: of_int_le_iff)
  then have "of_int (2 ^ 52) * quantum a \<le> of_int (rne (a / quantum a)) * quantum a"
    by (intro mult_right_mono) simp_all
  then have "pow2 (expo a) \<le> of_int (rne (a / quantum a)) * quantum a" by (simp only: p)
  moreover have "pow2 0 \<le> pow2 (expo a)" using e by (simp only: pow2_le_iff)
  ultimately have "1 \<le> of_int (rne (a / quantum a)) * quantum a" by (simp add: pow2_0)
  with a0(1) assms(2) show ?thesis by (cases a rule: round64_cases) simp_all
qed

lemma samples_first:
  assumes "2 \<le> n"
  shows "samples n ! 0 = Fin 0"
proof -
  define dv where "dv = f64_of_int (n - 1)"
  define step where "step = fdiv (Fin 1) dv"
  have z: "f64_of_int 0 = Fin 0" by (simp add: f64_of_int_def)
  have "0 < nat n - 1" using assms by simp
  from samples_nth [OF assms this]
  have s: "samples n ! 0 =
      fadd (if step = Fin 0 then fmul (fdiv (Fin 0) dv) (Fin 1) else fmul (Fin 0) step) (Fin 0)"
    unfolding Let_def dv_def [symmetric] step_def [symmetric] by (simp only: z of_nat_0)
  have r: "dv = round64 (of_int (n - 1))" by (simp add: dv_def f64_of_int_def)
  have "(if step = Fin 0 then fmul (fdiv (Fin 0) dv) (Fin 1) else fmul (Fin 0) step) = Fin 0"
  proof (cases dv)
    case (Fin v)
    have "(1 :: rat) \<le> of_int (n - 1)" using assms by simp
    moreover have "round64 (of_int (n - 1)) = Fin v" by (simp only: r [symmetric] Fin)
    ultimately have v: "1 \<le> v" by (rule round64_ge_one)
    then have "\<bar>1 / v\<bar> \<le> pow2 0" by (simp add: pow2_0)
    then obtain c where "round64 (1 / v) = Fin c" by (rule round64_bound) simp_all
    moreover have "v \<noteq> 0" using v by simp
    ultimately show ?thesis unfolding step_def Fin by simp
  next
    case PInf
    then show ?thesis by (simp add: step_def)
  next
    case NInf
    then show ?thesis by (simp add: step_def)
  next
    case NaN
    then have "round64 (of_int (n - 1)) = NaN" by (simp only: r [symmetric])
    then show ?thesis by simp
  qed
  then show ?thesis by (simp add: s)
qed

lemma finite64_Fin: "finite64 v \<Longrightarrow> (\<And>a. v = Fin a \<Longrightarrow> rep64 a \<Longrightarrow> P) \<Longrightarrow> P"
  by (cases v) (simp_all add: finite64_def)

lemma blend_corners:
  assumes "finite64 b" "finite64 t" "finite64 l" "finite64 r"
    "finite64 t1" "finite64 b1" "finite64 t0" "finite64 b0"
  shows "blend (Fin 0) (Fin 0) b t l r t1 b1 t0 b0 = fsub (fadd b l) b0"
    and "blend (Fin 0) (Fin 1) b t l r t1 b1 t0 b0 = fsub (fadd t l) t0"
    and "blend (Fin 1) (Fin 0) b t l r t1 b1 t0 b0 = fsub (fadd b r) b1"
    and "blend (Fin 1) (Fin 1) b t l r t1 b1 t0 b0 = fsub (fadd t r) t1"
proof -
  from assms(1) obtain b' where b: "b = Fin b'" "rep64 b'" by (rule finite64_Fin)
  from assms(2) obtain t' where t: "t = Fin t'" "rep64 t'" by (rule finite64_Fin)
  from assms(3) obtain l' where l: "l = Fin l'" "rep64 l'" by (rule finite64_Fin)
  from assms(4) obtain r' where r: "r = Fin r'" "rep64 r'" by (rule finite64_Fin)
  from assms(5) obtain t1' where t1: "t1 = Fin t1'" "rep64 t1'" by (rule finite64_Fin)
  from assms(6) obtain b1' where b1: "b1 = Fin b1'" "rep64 b1'" by (rule finite64_Fin)
  from assms(7) obtain t0' where t0: "t0 = Fin t0'" "rep64 t0'" by (rule finite64_Fin)
  from assms(8) obtain b0' where b0: "b0 = Fin b0'" "rep64 b0'" by (rule finite64_Fin)
  note rp = b t l r t1 b1 t0 b0
  have z: "fadd (round64 a) (Fin 0) = round64 a" for a by (rule fadd_round_zero)
  show "blend (Fin 0) (Fin 0) b t l r t1 b1 t0 b0 = fsub (fadd b l) b0"
    using z [of "b' + l'"] by (simp add: blend_def rp round64_rep)
  show "blend (Fin 0) (Fin 1) b t l r t1 b1 t0 b0 = fsub (fadd t l) t0"
    using z [of "t' + l'"] by (simp add: blend_def rp round64_rep)
  show "blend (Fin 1) (Fin 0) b t l r t1 b1 t0 b0 = fsub (fadd b r) b1"
    by (simp add: blend_def rp round64_rep)
  show "blend (Fin 1) (Fin 1) b t l r t1 b1 t0 b0 = fsub (fadd t r) t1"
    by (simp add: blend_def rp round64_rep)
qed

lemma mesh_corners:
  assumes "2 \<le> nx" "2 \<le> nz"
    and "finite_point (b (Fin 0))" "finite_point (b (Fin 1))"
    and "finite_point (t (Fin 0))" "finite_point (t (Fin 1))"
    and "finite_point (l (Fin 0))" "finite_point (l (Fin 1))"
    and "finite_point (r (Fin 0))" "finite_point (r (Fin 1))"
  shows "node (mesh_map b t l r (samples nx) (samples nz)) 0 0
           = rounded_corner (b (Fin 0)) (l (Fin 0))"
    and "node (mesh_map b t l r (samples nx) (samples nz)) 0 (nat nz - 1)
           = rounded_corner (t (Fin 0)) (l (Fin 1))"
    and "node (mesh_map b t l r (samples nx) (samples nz)) (nat nx - 1) 0
           = rounded_corner (b (Fin 1)) (r (Fin 0))"
    and "node (mesh_map b t l r (samples nx) (samples nz)) (nat nx - 1) (nat nz - 1)
           = rounded_corner (t (Fin 1)) (r (Fin 1))"
proof -
  have i: "0 < length (samples nx)" "nat nx - 1 < length (samples nx)"
    "0 < length (samples nz)" "nat nz - 1 < length (samples nz)"
    using assms(1,2) by (simp_all add: length_samples)
  note s = samples_first [OF assms(1)] samples_first [OF assms(2)]
    samples_last [OF assms(1)] samples_last [OF assms(2)]
  note f = assms(3-) [unfolded finite_point_def]
  note f1 = f [THEN conjunct1] and f2 = f [THEN conjunct2]
  show "node (mesh_map b t l r (samples nx) (samples nz)) 0 0
           = rounded_corner (b (Fin 0)) (l (Fin 0))"
    unfolding node_def rounded_corner_def mesh_map_nth [OF i(1) i(3)] gordon_hall_def s
    by (simp only: blend_corners(1) f1 f2)
  show "node (mesh_map b t l r (samples nx) (samples nz)) 0 (nat nz - 1)
           = rounded_corner (t (Fin 0)) (l (Fin 1))"
    unfolding node_def rounded_corner_def mesh_map_nth [OF i(1) i(4)] gordon_hall_def s
    by (simp only: blend_corners(2) f1 f2)
  show "node (mesh_map b t l r (samples nx) (samples nz)) (nat nx - 1) 0
           = rounded_corner (b (Fin 1)) (r (Fin 0))"
    unfolding node_def rounded_corner_def mesh_map_nth [OF i(2) i(3)] gordon_hall_def s
    by (simp only: blend_corners(3) f1 f2)
  show "node (mesh_map b t l r (samples nx) (samples nz)) (nat nx - 1) (nat nz - 1)
           = rounded_corner (t (Fin 1)) (r (Fin 1))"
    unfolding node_def rounded_corner_def mesh_map_nth [OF i(2) i(4)] gordon_hall_def s
    by (simp only: blend_corners(4) f1 f2)
qed

lemma generate_mesh_const:
  assumes "0 \<le> nx" "0 \<le> nz"
  shows "generate_mesh (const_curve pb) (const_curve pt) (const_curve pl) (const_curve pr) nx nz
         = Inr (mesh_map (\<lambda>s. pb) (\<lambda>s. pt) (\<lambda>s. pl) (\<lambda>s. pr) (samples nx) (samples nz))"
  using generate_mesh_total [OF assms, of "\<lambda>s. pb" "\<lambda>s. pt" "\<lambda>s. pl" "\<lambda>s. pr"]
  by (simp add: const_curve_def total_curve_def)

lemma rounded_corner_same:
  assumes "magnitude_below (pow2 1023) p"
  shows "rounded_corner p p = p"
proof -
  from assms have f: "finite64 (fst p)" "finite64 (snd p)"
    and m: "\<bar>val (fst p)\<bar> < pow2 1023" "\<bar>val (snd p)\<bar> < pow2 1023"
    by (simp_all add: magnitude_below_def finite_point_def)
  from f(1) obtain x where x: "fst p = Fin x" "rep64 x" by (rule finite64_Fin)
  from f(2) obtain z where z: "snd p = Fin z" "rep64 z" by (rule finite64_Fin)
  have "fsub (fadd (Fin a) (Fin a)) (Fin a) = Fin a" if "rep64 a" "\<bar>a\<bar> < pow2 1023" for a
    using that by (simp add: fadd_self round64_rep del: fadd.simps)
  from this [OF x(2)] this [OF z(2)] m show ?thesis
    by (simp add: rounded_corner_def x z val_def prod_eq_iff)
qed

text \<open>
  Claim C9, as the code has it. For boundary curves that always return, with finite
  values at the parameters 0 and 1, and \<open>nx, nz \<ge> 2\<close>, the cell returns a mesh whatever
  the corner values are: nothing compares them. Each corner node is \<open>(h + v) - h\<close> in
  binary64, per coordinate, where \<open>h\<close> is the end of the bottom or top curve and \<open>v\<close> the
  end of the left or right curve at that corner: the bottom and top contributions cancel
  only up to the rounding of the sum and of the difference.
\<close>

theorem corner_selection:
  assumes "2 \<le> nx" "2 \<le> nz"
    and "finite_point (b (Fin 0))" "finite_point (b (Fin 1))"
    and "finite_point (t (Fin 0))" "finite_point (t (Fin 1))"
    and "finite_point (l (Fin 0))" "finite_point (l (Fin 1))"
    and "finite_point (r (Fin 0))" "finite_point (r (Fin 1))"
  shows "\<exists>m. generate_mesh (total_curve b) (total_curve t) (total_curve l) (total_curve r) nx nz
               = Inr m
     \<and> node m 0 0 = rounded_corner (b (Fin 0)) (l (Fin 0))
     \<and> node m 0 (nat nz - 1) = rounded_corner (t (Fin 0)) (l (Fin 1))
     \<and> node m (nat nx - 1) 0 = rounded_corner (b (Fin 1)) (r (Fin 0))
     \<and> node m (nat nx - 1) (nat nz - 1) = rounded_corner (t (Fin 1)) (r (Fin 1))"
proof -
  have "generate_mesh (total_curve b) (total_curve t) (total_curve l) (total_curve r) nx nz
         = Inr (mesh_map b t l r (samples nx) (samples nz))"
    using assms(1,2) by (intro generate_mesh_total) simp_all
  with mesh_corners [OF assms] show ?thesis by simp
qed

theorem corner_selection_witness:
  "(2::int) \<le> 3 \<and> (2::int) \<le> 2
   \<and> finite_point (Fin (1 / 2), Fin 0) \<and> finite_point (Fin (3 / 4), Fin 1)
   \<and> (\<exists>m. generate_mesh (const_curve (Fin (1 / 2), Fin 0)) (const_curve (Fin 3, Fin 1))
              (const_curve (Fin (3 / 4), Fin 1)) (const_curve (Fin 5, Fin 7)) 3 2 = Inr m
        \<and> node m 0 0 = (Fin (3 / 4), Fin 1)
        \<and> node m 0 1 = (Fin (3 / 4), Fin 1)
        \<and> node m 2 0 = (Fin 5, Fin 7)
        \<and> node m 2 1 = (Fin 5, Fin 7))"
proof -
  have r: "rep64 (1 / 2)" "rep64 (3 / 4)" "rep64 3" "rep64 5" "rep64 7"
    by (simp_all add: rep64_def f64_eval)
  then have f: "finite_point (Fin (1 / 2), Fin 0)" "finite_point (Fin 3, Fin 1)"
    "finite_point (Fin (3 / 4), Fin 1)" "finite_point (Fin 5, Fin 7)"
    by (simp_all add: finite_point_def finite64_def)
  from corner_selection [of 3 2 "\<lambda>s. (Fin (1 / 2), Fin 0)" "\<lambda>s. (Fin 3, Fin 1)"
         "\<lambda>s. (Fin (3 / 4), Fin 1)" "\<lambda>s. (Fin 5, Fin 7)"] f
  show ?thesis
    by (simp add: const_curve_def total_curve_def rounded_corner_def f64_eval)
qed

text \<open>
  Claim C9 as stated fails: the bottom curve does not cancel exactly. With
  \<open>bottom(0) = (0.1, 0)\<close> and \<open>left(0) = (0.2, 0)\<close> on a \<open>2 \<times> 2\<close> grid, the node \<open>(0, 0)\<close> has
  the abscissa 0.20000000000000004, the float after that of \<open>left(0)\<close>.
\<close>

theorem corner_selection_counterexample:
  "node (projr (generate_mesh
           (const_curve (Fin (3602879701896397 / 36028797018963968), Fin 0)) unit_top
           (const_curve (Fin (3602879701896397 / 18014398509481984), Fin 0)) unit_right 2 2))
        0 0
     = (Fin (7205759403792795 / 36028797018963968), Fin 0)
   \<and> projr (const_curve (Fin (3602879701896397 / 18014398509481984), Fin 0) (Fin 0))
     = (Fin (7205759403792794 / 36028797018963968), Fin 0)"
proof
  have "generate_mesh
           (const_curve (Fin (3602879701896397 / 36028797018963968), Fin 0)) unit_top
           (const_curve (Fin (3602879701896397 / 18014398509481984), Fin 0)) unit_right 2 2
        = Inr (mesh_map (\<lambda>s. (Fin (3602879701896397 / 36028797018963968), Fin 0))
                 (\<lambda>x. (x, Fin 1))
                 (\<lambda>s. (Fin (3602879701896397 / 18014398509481984), Fin 0))
                 (\<lambda>e. (Fin 1, e)) (samples 2) (samples 2))"
    unfolding unit_top_def unit_right_def const_curve_def total_curve_def [symmetric]
    by (rule generate_mesh_total) simp_all
  then show "node (projr (generate_mesh
           (const_curve (Fin (3602879701896397 / 36028797018963968), Fin 0)) unit_top
           (const_curve (Fin (3602879701896397 / 18014398509481984), Fin 0)) unit_right 2 2))
        0 0
     = (Fin (7205759403792795 / 36028797018963968), Fin 0)"
    by (simp add: node_def mesh_map_nth samples_two gordon_hall_def blend_def f64_eval)
  show "projr (const_curve (Fin (3602879701896397 / 18014398509481984), Fin 0) (Fin 0))
     = (Fin (7205759403792794 / 36028797018963968), Fin 0)"
    by (simp add: const_curve_def)
qed

text \<open>
  Claim C3, as the code has it. For boundary curves that always return and agree at the
  four corners, with finite corner values of magnitude below \<open>2\<^sup>1\<^sup>0\<^sup>2\<^sup>3\<close>, and
  \<open>nx, nz \<ge> 2\<close>, the four corner nodes of the mesh are exactly the end points of the
  curves: \<open>(v + v) - v\<close> is then computed without rounding.
\<close>

theorem corner_exactness:
  assumes "2 \<le> nx" "2 \<le> nz"
    and "b (Fin 0) = l (Fin 0)" "b (Fin 1) = r (Fin 0)"
    and "t (Fin 0) = l (Fin 1)" "t (Fin 1) = r (Fin 1)"
    and "magnitude_below (pow2 1023) (l (Fin 0))" "magnitude_below (pow2 1023) (l (Fin 1))"
    and "magnitude_below (pow2 1023) (r (Fin 0))" "magnitude_below (pow2 1023) (r (Fin 1))"
  shows "\<exists>m. generate_mesh (total_curve b) (total_curve t) (total_curve l) (total_curve r) nx nz
               = Inr m
     \<and> node m 0 0 = l (Fin 0) \<and> node m 0 0 = b (Fin 0)
     \<and> node m 0 (nat nz - 1) = l (Fin 1) \<and> node m 0 (nat nz - 1) = t (Fin 0)
     \<and> node m (nat nx - 1) 0 = r (Fin 0) \<and> node m (nat nx - 1) 0 = b (Fin 1)
     \<and> node m (nat nx - 1) (nat nz - 1) = r (Fin 1)
     \<and> node m (nat nx - 1) (nat nz - 1) = t (Fin 1)"
proof -
  have g: "generate_mesh (total_curve b) (total_curve t) (total_curve l) (total_curve r) nx nz
         = Inr (mesh_map b t l r (samples nx) (samples nz))"
    using assms(1,2) by (intro generate_mesh_total) simp_all
  note f = assms(7-) [unfolded magnitude_below_def, THEN conjunct1]
  have c: "node (mesh_map b t l r (samples nx) (samples nz)) 0 0
             = rounded_corner (l (Fin 0)) (l (Fin 0))"
    "node (mesh_map b t l r (samples nx) (samples nz)) 0 (nat nz - 1)
             = rounded_corner (l (Fin 1)) (l (Fin 1))"
    "node (mesh_map b t l r (samples nx) (samples nz)) (nat nx - 1) 0
             = rounded_corner (r (Fin 0)) (r (Fin 0))"
    "node (mesh_map b t l r (samples nx) (samples nz)) (nat nx - 1) (nat nz - 1)
             = rounded_corner (r (Fin 1)) (r (Fin 1))"
    using mesh_corners [of nx nz b t l r] assms(1,2) f by (simp_all add: assms(3-6))
  show ?thesis
    unfolding g using c by (simp add: rounded_corner_same assms(3-))
qed

lemma rne_quantum_ge:
  assumes "pow2 j \<le> a" "- 1022 \<le> j"
  shows "pow2 j \<le> of_int (rne (a / quantum a)) * quantum a"
proof -
  have "0 < a" by (rule less_le_trans [OF pow2_pos assms(1)])
  then have a0: "a \<noteq> 0" "\<bar>a\<bar> = a" by simp_all
  have "pow2 j < pow2 (expo a + 1)"
    using assms(1) expo_bounds(2) [OF a0(1)] unfolding a0(2) by (rule le_less_trans)
  then have "j < expo a + 1" by (simp only: pow2_less_iff)
  then have e: "j \<le> expo a" by simp
  then have "max (expo a) (- 1022) = expo a" using assms(2) by simp
  then have q: "quantum a = pow2 (expo a - 52)" by (simp only: quantum_exponent)
  have "pow2 (expo a) / pow2 (expo a - 52) = pow2 52" by (simp add: pow2_diff)
  also have "\<dots> = of_int (2 ^ 52)" by (simp add: pow2_def)
  finally have p: "pow2 (expo a) = of_int (2 ^ 52) * quantum a" by (simp add: q field_simps)
  have "pow2 (expo a) / quantum a \<le> a / quantum a"
    using expo_bounds(1) [OF a0(1)] by (simp add: a0(2) divide_right_mono)
  then have "of_int (2 ^ 52) \<le> a / quantum a" by (simp add: p)
  then have "2 ^ 52 \<le> rne (a / quantum a)" by (rule rne_ge)
  then have "(of_int (2 ^ 52) :: rat) \<le> of_int (rne (a / quantum a))" by (simp only: of_int_le_iff)
  then have "of_int (2 ^ 52) * quantum a \<le> of_int (rne (a / quantum a)) * quantum a"
    by (intro mult_right_mono) simp_all
  then have "pow2 (expo a) \<le> of_int (rne (a / quantum a)) * quantum a" by (simp only: p)
  moreover have "pow2 j \<le> pow2 (expo a)" using e by (simp only: pow2_le_iff)
  ultimately show ?thesis by (rule order_trans [rotated])
qed

lemma round64_overflow:
  assumes "pow2 1024 \<le> a"
  shows "round64 a = PInf"
proof -
  have "0 < a" by (rule less_le_trans [OF pow2_pos assms])
  then have "a \<noteq> 0" by simp
  moreover have "pow2 1024 \<le> of_int (rne (a / quantum a)) * quantum a"
    by (rule rne_quantum_ge [OF assms]) simp
  ultimately show ?thesis by (simp add: round64_def Let_def)
qed

lemma rep64_pow2: "- 1074 \<le> k \<Longrightarrow> k \<le> 1023 \<Longrightarrow> rep64 (pow2 k)"
  by (rule rep64_multiple [of _ 1 k]) simp_all

lemma one_less_pow2: "0 < k \<Longrightarrow> 1 < pow2 k"
  using pow2_strict_mono [of 0 k] by (simp add: pow2_0)

theorem corner_exactness_witness:
  "(2::int) \<le> 3 \<and> (2::int) \<le> 3
   \<and> magnitude_below (pow2 1023) (Fin 0, Fin 0) \<and> magnitude_below (pow2 1023) (Fin 0, Fin 1)
   \<and> magnitude_below (pow2 1023) (Fin 1, Fin 0) \<and> magnitude_below (pow2 1023) (Fin 1, Fin 1)
   \<and> (\<exists>m. generate_mesh unit_bottom unit_top unit_left unit_right 3 3 = Inr m
        \<and> node m 0 0 = (Fin 0, Fin 0) \<and> node m 0 2 = (Fin 0, Fin 1)
        \<and> node m 2 0 = (Fin 1, Fin 0) \<and> node m 2 2 = (Fin 1, Fin 1))"
proof -
  have m: "magnitude_below (pow2 1023) (Fin 0, Fin 0)" "magnitude_below (pow2 1023) (Fin 0, Fin 1)"
    "magnitude_below (pow2 1023) (Fin 1, Fin 0)" "magnitude_below (pow2 1023) (Fin 1, Fin 1)"
    by (simp_all add: magnitude_below_def finite_point_def finite64_def val_def one_less_pow2)
  from corner_exactness [of 3 3 "\<lambda>x. (x, Fin 0)" "\<lambda>e. (Fin 0, e)" "\<lambda>e. (Fin 1, e)"
         "\<lambda>x. (x, Fin 1)"] m
  show ?thesis
    by (simp add: unit_bottom_def unit_top_def unit_left_def unit_right_def)
qed

text \<open>
  Claim C3 as stated fails for large corner values: \<open>v + v\<close> overflows. With the four
  curves constant at \<open>(2\<^sup>1\<^sup>0\<^sup>2\<^sup>3, 0)\<close>, which agree at every corner, the node \<open>(0, 0)\<close> of
  the \<open>2 \<times> 2\<close> grid has an infinite abscissa.
\<close>

theorem corner_exactness_counterexample:
  "node (projr (generate_mesh (const_curve (Fin (2 ^ 1023), Fin 0))
           (const_curve (Fin (2 ^ 1023), Fin 0)) (const_curve (Fin (2 ^ 1023), Fin 0))
           (const_curve (Fin (2 ^ 1023), Fin 0)) 2 2)) 0 0
     = (PInf, Fin 0)"
proof -
  have p: "(2 :: rat) ^ 1023 = pow2 1023" by (simp add: pow2_def)
  have "rep64 (pow2 1023)" by (rule rep64_pow2) simp_all
  then have f: "finite_point (Fin (pow2 1023), Fin 0)"
    by (simp add: finite_point_def finite64_def)
  have "pow2 1024 \<le> 2 * pow2 1023" using pow2_add [of 1023 1] by simp
  then have o: "round64 (2 * pow2 1023) = PInf" by (rule round64_overflow)
  have "generate_mesh (const_curve (Fin (pow2 1023), Fin 0))
           (const_curve (Fin (pow2 1023), Fin 0)) (const_curve (Fin (pow2 1023), Fin 0))
           (const_curve (Fin (pow2 1023), Fin 0)) 2 2
        = Inr (mesh_map (\<lambda>s. (Fin (pow2 1023), Fin 0)) (\<lambda>s. (Fin (pow2 1023), Fin 0))
                 (\<lambda>s. (Fin (pow2 1023), Fin 0)) (\<lambda>s. (Fin (pow2 1023), Fin 0))
                 (samples 2) (samples 2))"
    by (rule generate_mesh_const) simp_all
  moreover have "node (mesh_map (\<lambda>s. (Fin (pow2 1023), Fin 0)) (\<lambda>s. (Fin (pow2 1023), Fin 0))
                 (\<lambda>s. (Fin (pow2 1023), Fin 0)) (\<lambda>s. (Fin (pow2 1023), Fin 0))
                 (samples 2) (samples 2)) 0 0
      = rounded_corner (Fin (pow2 1023), Fin 0) (Fin (pow2 1023), Fin 0)"
    by (rule mesh_corners(1)) (simp_all add: f)
  ultimately show ?thesis
    unfolding p by (simp add: rounded_corner_def o)
qed

end
